theory Spec2Isabelle
  imports Complex_Main
begin

section \<open>PDF compressor: data model\<close>

text \<open>
  The program is \<^verbatim>\<open>pdf_file_compressor.py\<close>: a class \<^verbatim>\<open>PDFCompressor\<close> with the
  methods \<^verbatim>\<open>compress_image\<close> and \<^verbatim>\<open>compress_pdf\<close>. Everything it does goes through
  two libraries (PyMuPDF, imported as \<^verbatim>\<open>fitz\<close>, and Pillow) and the file system. The
  control flow of the two methods is embedded here; each library call whose result
  the program cannot determine is a field of the record \<open>library\<close>, and a call that can
  raise returns a sum with the exception on the left.
\<close>

text \<open>
  A path is the string the program hands to the libraries (\<^verbatim>\<open>Path\<close> and \<^verbatim>\<open>str\<close> keep it),
  and a byte string is the list of its bytes.
\<close>

type_synonym path = string
type_synonym bytes = "nat list"

text \<open>
  Instances of Python's \<^verbatim>\<open>Exception\<close>: the one the program raises itself, the two the
  interpreter raises on a division by zero and on an index out of range, and those of
  the libraries and of \<^verbatim>\<open>os.path.getsize\<close>.
\<close>

datatype exn =
    FileNotFoundError path
  | ZeroDivisionError
  | IndexError
  | OSError path
  | LibraryError string

subsection \<open>Pillow images\<close>

record pil_image =
  mode :: string
  im_size :: "nat \<times> nat"
  pixels :: "nat list"

text \<open>The keyword arguments of \<^verbatim>\<open>Image.save\<close>; \<open>optimize = None\<close> when the keyword is not passed.\<close>

record save_args =
  format :: string
  quality :: int
  optimize :: "bool option"

subsection \<open>PyMuPDF documents\<close>

record rect =
  x0 :: rat
  y0 :: rat
  x1 :: rat
  y1 :: rat

text \<open>An item of \<^verbatim>\<open>page.get_images(full=True)\<close>; the program reads \<^verbatim>\<open>img[0]\<close>, the xref.\<close>

record img_item =
  xref :: int
  img_name :: string

text \<open>The dictionary of \<^verbatim>\<open>extract_image\<close>, with its keys \<^verbatim>\<open>"image"\<close> and \<^verbatim>\<open>"ext"\<close>.\<close>

record base_image =
  bi_image :: bytes
  bi_ext :: string

record source_page =
  page_rect :: rect
  get_images :: "exn + img_item list"
  get_image_bbox :: "img_item \<Rightarrow> exn + rect"

text \<open>\<open>extract_image\<close> gives \<open>Inr None\<close> for the empty dictionary.\<close>

record source_doc =
  pages :: "source_page list"
  extract_image :: "int \<Rightarrow> exn + base_image option"

datatype page_op =
    Show_pdf_page rect nat
  | Insert_image rect bytes

record out_page =
  width :: rat
  height :: rat
  ops :: "page_op list"

subsection \<open>The libraries\<close>

record library =
  fitz_open :: "path \<Rightarrow> exn + source_doc"
  rect_width :: "rect \<Rightarrow> rat"
  rect_height :: "rect \<Rightarrow> rat"
  rect_bool :: "rect \<Rightarrow> bool"
  show_pdf_page :: "rect \<Rightarrow> nat \<Rightarrow> exn + unit"
  insert_image :: "rect \<Rightarrow> bytes \<Rightarrow> exn + unit"
  doc_save :: "path \<Rightarrow> out_page list \<Rightarrow> exn + nat"
  Image_open :: "bytes \<Rightarrow> exn + pil_image"
  Image_split :: "pil_image \<Rightarrow> pil_image list"
  Image_paste :: "pil_image \<Rightarrow> pil_image \<Rightarrow> pil_image \<Rightarrow> exn + nat list"
  Image_save :: "pil_image \<Rightarrow> save_args \<Rightarrow> exn + bytes"

text \<open>
  \<open>doc_save\<close> returns the size in bytes of the file it wrote. \<open>Image_paste background im mask\<close>
  returns the new raster of \<open>background\<close>: Pillow's \<^verbatim>\<open>paste\<close> changes the pixels of the
  image it is called on, never its mode or size.
\<close>

subsection \<open>The compressor object and the state it runs in\<close>

record PDFCompressor =
  input_path :: path
  output_path :: path
  image_quality :: int

datatype handle = Unopened | Opened | Closed

datatype log_entry =
    Info_starting path
  | Info_processing nat nat
  | Info_complete path
  | Info_original_size nat
  | Info_compressed_size nat
  | Info_ratio rat
  | Error_image exn
  | Error_pdf exn

text \<open>
  \<open>files\<close> is the storage (the size of each file that exists) and \<open>logged\<close> the logger's
  output. \<open>pdf_document\<close>, \<open>output_pdf\<close> and \<open>out_pages\<close> are the two local document
  handles of \<^verbatim>\<open>compress_pdf\<close> and the content of the output document. The last two
  fields record what the run handed to the libraries: every \<^verbatim>\<open>Image.save\<close> call with
  its image and arguments, and the pages a successful \<^verbatim>\<open>output_pdf.save\<close> persisted.
\<close>

record state =
  files :: "path \<rightharpoonup> nat"
  logged :: "log_entry list"
  pdf_document :: handle
  output_pdf :: handle
  out_pages :: "out_page list"
  encoder_calls :: "(pil_image \<times> save_args) list"
  persisted :: "out_page list option"

definition initial_state :: "(path \<rightharpoonup> nat) \<Rightarrow> log_entry list \<Rightarrow> state" where
  "initial_state fs lg =
     \<lparr>files = fs, logged = lg, pdf_document = Unopened, output_pdf = Unopened,
      out_pages = [], encoder_calls = [], persisted = None\<rparr>"

definition logger :: "log_entry \<Rightarrow> state \<Rightarrow> state" where
  "logger entry s = s\<lparr>logged := logged s @ [entry]\<rparr>"

text \<open>\<^verbatim>\<open>__init__\<close>, with the default \<^verbatim>\<open>image_quality=30\<close>.\<close>

definition init :: "path \<Rightarrow> path \<Rightarrow> int option \<Rightarrow> PDFCompressor" where
  "init inp outp q =
     \<lparr>input_path = inp, output_path = outp,
      image_quality = (case q of None \<Rightarrow> 30 | Some v \<Rightarrow> v)\<rparr>"

section \<open>compress_image\<close>

text \<open>\<^verbatim>\<open>str.lower\<close> and \<^verbatim>\<open>str.upper\<close> on the ASCII letters; other characters are kept.\<close>

definition lower_char :: "char \<Rightarrow> char" where
  "lower_char c =
     (let n = (of_char c :: nat) in if 65 \<le> n \<and> n \<le> 90 then char_of (n + 32) else c)"

definition upper_char :: "char \<Rightarrow> char" where
  "upper_char c =
     (let n = (of_char c :: nat) in if 97 \<le> n \<and> n \<le> 122 then char_of (n - 32) else c)"

definition lower :: "string \<Rightarrow> string" where
  "lower s = map lower_char s"

definition upper :: "string \<Rightarrow> string" where
  "upper s = map upper_char s"

text \<open>\<^verbatim>\<open>Image.new('RGB', size, (255, 255, 255))\<close>: three bytes for each pixel.\<close>

definition Image_new_white :: "nat \<times> nat \<Rightarrow> pil_image" where
  "Image_new_white sz =
     \<lparr>mode = ''RGB'', im_size = sz, pixels = replicate (fst sz * snd sz * 3) 255\<rparr>"

text \<open>
  Lines 28 to 32. \<^verbatim>\<open>image.split()[-1]\<close> is the last band and raises on an empty tuple.
\<close>

definition convert_rgba_to_rgb :: "library \<Rightarrow> pil_image \<Rightarrow> exn + pil_image" where
  "convert_rgba_to_rgb lib im =
     (if mode im \<in> {''RGBA'', ''LA''} then
        (let background = Image_new_white (im_size im) in
         case Image_split lib im of
           [] \<Rightarrow> Inl IndexError
         | b # bs \<Rightarrow>
            (case Image_paste lib background im (last (b # bs)) of
               Inl e \<Rightarrow> Inl e
             | Inr px \<Rightarrow> Inr (background\<lparr>pixels := px\<rparr>)))
      else Inr im)"

text \<open>Lines 34 to 48: the arguments of the one \<^verbatim>\<open>image.save\<close> call that is made.\<close>

definition save_arguments :: "string \<Rightarrow> int \<Rightarrow> save_args" where
  "save_arguments image_ext q =
     (if lower image_ext \<in> {''jpg'', ''jpeg''} then
        \<lparr>format = ''JPEG'', quality = q, optimize = Some True\<rparr>
      else if lower image_ext = ''png'' then
        \<lparr>format = ''PNG'', quality = q, optimize = Some True\<rparr>
      else
        \<lparr>format = upper image_ext, quality = q, optimize = None\<rparr>)"

text \<open>The body of the \<^verbatim>\<open>try\<close> block of \<^verbatim>\<open>compress_image\<close>.\<close>

definition compress_image_try ::
  "library \<Rightarrow> PDFCompressor \<Rightarrow> bytes \<Rightarrow> string \<Rightarrow> state \<Rightarrow> (exn + bytes) \<times> state" where
  "compress_image_try lib self image_bytes image_ext s =
     (case Image_open lib image_bytes of
        Inl e \<Rightarrow> (Inl e, s)
      | Inr im \<Rightarrow>
         (case convert_rgba_to_rgb lib im of
            Inl e \<Rightarrow> (Inl e, s)
          | Inr im' \<Rightarrow>
             (let args = save_arguments image_ext (image_quality self);
                  s1 = s\<lparr>encoder_calls := encoder_calls s @ [(im', args)]\<rparr>
              in case Image_save lib im' args of
                   Inl e \<Rightarrow> (Inl e, s1)
                 | Inr compressed_bytes \<Rightarrow> (Inr compressed_bytes, s1))))"

text \<open>\<^verbatim>\<open>compress_image\<close>: the buffer, or \<open>None\<close> after logging the exception.\<close>

definition compress_image ::
  "library \<Rightarrow> PDFCompressor \<Rightarrow> bytes \<Rightarrow> string \<Rightarrow> state \<Rightarrow> bytes option \<times> state" where
  "compress_image lib self image_bytes image_ext s =
     (case compress_image_try lib self image_bytes image_ext s of
        (Inr compressed_bytes, s1) \<Rightarrow> (Some compressed_bytes, s1)
      | (Inl e, s1) \<Rightarrow> (None, logger (Error_image e) s1))"

section \<open>compress_pdf\<close>

text \<open>
  A \<^verbatim>\<open>for\<close> loop whose body may raise: the first exception ends the loop and is
  passed on with the state reached.
\<close>

fun for_each ::
  "'a list \<Rightarrow> ('a \<Rightarrow> state \<Rightarrow> (exn + unit) \<times> state) \<Rightarrow> state \<Rightarrow> (exn + unit) \<times> state" where
  "for_each [] body s = (Inr (), s)"
| "for_each (x # xs) body s =
     (case body x s of
        (Inl e, s1) \<Rightarrow> (Inl e, s1)
      | (Inr u, s1) \<Rightarrow> for_each xs body s1)"

text \<open>
  \<^verbatim>\<open>output_page\<close> is the page \<^verbatim>\<open>new_page\<close> appended; it is addressed by its index in the
  output document, and drawing on it appends to its operations.
\<close>

definition draw :: "nat \<Rightarrow> page_op \<Rightarrow> state \<Rightarrow> state" where
  "draw idx operation s =
     s\<lparr>out_pages := (out_pages s)
          [idx := (out_pages s ! idx)\<lparr>ops := ops (out_pages s ! idx) @ [operation]\<rparr>]\<rparr>"

definition new_page :: "rat \<Rightarrow> rat \<Rightarrow> state \<Rightarrow> nat \<times> state" where
  "new_page w h s =
     (length (out_pages s),
      s\<lparr>out_pages := out_pages s @ [\<lparr>width = w, height = h, ops = []\<rparr>]\<rparr>)"

text \<open>
  Lines 83 to 98, the body of the loop over the images of a page. The three tests
  \<^verbatim>\<open>if base_image\<close>, \<^verbatim>\<open>if compressed_bytes\<close> and \<^verbatim>\<open>if image_rect\<close> are Python truth
  tests: of a dictionary (not empty), of a \<^verbatim>\<open>BytesIO\<close> or \<^verbatim>\<open>None\<close> (not \<^verbatim>\<open>None\<close>), and
  of a PyMuPDF rectangle (\<open>rect_bool\<close>).
\<close>

definition process_image ::
  "library \<Rightarrow> PDFCompressor \<Rightarrow> source_doc \<Rightarrow> source_page \<Rightarrow> nat \<Rightarrow> img_item \<Rightarrow> state
     \<Rightarrow> (exn + unit) \<times> state" where
  "process_image lib self doc page output_page img s =
     (case extract_image doc (xref img) of
        Inl e \<Rightarrow> (Inl e, s)
      | Inr None \<Rightarrow> (Inr (), s)
      | Inr (Some base) \<Rightarrow>
         (case compress_image lib self (bi_image base) (bi_ext base) s of
            (None, s1) \<Rightarrow> (Inr (), s1)
          | (Some compressed_bytes, s1) \<Rightarrow>
             (case get_image_bbox page img of
                Inl e \<Rightarrow> (Inl e, s1)
              | Inr image_rect \<Rightarrow>
                 (if rect_bool lib image_rect then
                    (case insert_image lib image_rect compressed_bytes of
                       Inl e \<Rightarrow> (Inl e, s1)
                     | Inr u \<Rightarrow>
                        (Inr (), draw output_page (Insert_image image_rect compressed_bytes) s1))
                  else (Inr (), s1)))))"

text \<open>Lines 69 to 98, the body of the loop over the pages.\<close>

definition process_page ::
  "library \<Rightarrow> PDFCompressor \<Rightarrow> source_doc \<Rightarrow> nat \<Rightarrow> nat \<Rightarrow> state \<Rightarrow> (exn + unit) \<times> state" where
  "process_page lib self doc total_pages page_num s =
     (let s1 = logger (Info_processing (page_num + 1) total_pages) s;
          page = pages doc ! page_num
      in case get_images page of
           Inl e \<Rightarrow> (Inl e, s1)
         | Inr images \<Rightarrow>
            (let (output_page, s2) =
                   new_page (rect_width lib (page_rect page)) (rect_height lib (page_rect page)) s1
             in case show_pdf_page lib (page_rect page) page_num of
                  Inl e \<Rightarrow> (Inl e, s2)
                | Inr u \<Rightarrow>
                   (let s3 = draw output_page (Show_pdf_page (page_rect page) page_num) s2
                    in if images \<noteq> [] then
                         for_each images (process_image lib self doc page output_page) s3
                       else (Inr (), s3))))"

text \<open>\<^verbatim>\<open>os.path.getsize\<close>.\<close>

definition getsize :: "state \<Rightarrow> path \<Rightarrow> exn + nat" where
  "getsize s p = (case files s p of None \<Rightarrow> Inl (OSError p) | Some n \<Rightarrow> Inr n)"

text \<open>Lines 100 to 120: saving, the report, and the two \<^verbatim>\<open>close\<close> calls.\<close>

definition save_and_report :: "library \<Rightarrow> PDFCompressor \<Rightarrow> state \<Rightarrow> (exn + bool) \<times> state" where
  "save_and_report lib self s =
     (case doc_save lib (output_path self) (out_pages s) of
        Inl e \<Rightarrow> (Inl e, s)
      | Inr written \<Rightarrow>
         (let s1 = s\<lparr>files := (files s)(output_path self \<mapsto> written),
                      persisted := Some (out_pages s)\<rparr>
          in case getsize s1 (input_path self) of
               Inl e \<Rightarrow> (Inl e, s1)
             | Inr original_size \<Rightarrow>
                (case getsize s1 (output_path self) of
                   Inl e \<Rightarrow> (Inl e, s1)
                 | Inr compressed_size \<Rightarrow>
                    (if original_size = 0 then (Inl ZeroDivisionError, s1)
                     else
                       (let compression_ratio =
                              (1 - rat_of_nat compressed_size / rat_of_nat original_size) * 100;
                            s2 = logger (Info_complete (output_path self)) s1;
                            s3 = logger (Info_original_size original_size) s2;
                            s4 = logger (Info_compressed_size compressed_size) s3;
                            s5 = logger (Info_ratio compression_ratio) s4;
                            s6 = s5\<lparr>output_pdf := Closed\<rparr>;
                            s7 = s6\<lparr>pdf_document := Closed\<rparr>
                        in (Inr True, s7))))))"

text \<open>The body of the \<^verbatim>\<open>try\<close> block of \<^verbatim>\<open>compress_pdf\<close>.\<close>

definition compress_pdf_try :: "library \<Rightarrow> PDFCompressor \<Rightarrow> state \<Rightarrow> (exn + bool) \<times> state" where
  "compress_pdf_try lib self s =
     (if files s (input_path self) = None then
        (Inl (FileNotFoundError (input_path self)), s)
      else
        (let s1 = logger (Info_starting (input_path self)) s
         in case fitz_open lib (input_path self) of
              Inl e \<Rightarrow> (Inl e, s1)
            | Inr doc \<Rightarrow>
               (let s2 = s1\<lparr>pdf_document := Opened\<rparr>;
                    s3 = s2\<lparr>output_pdf := Opened, out_pages := []\<rparr>;
                    total_pages = length (pages doc)
                in case for_each [0..<total_pages] (process_page lib self doc total_pages) s3 of
                     (Inl e, s4) \<Rightarrow> (Inl e, s4)
                   | (Inr u, s4) \<Rightarrow> save_and_report lib self s4)))"

text \<open>
  \<^verbatim>\<open>compress_pdf\<close>, run on a storage and a log, with its local handles not yet opened:
  the value returned and the state at the return.
\<close>

definition compress_pdf ::
  "library \<Rightarrow> PDFCompressor \<Rightarrow> (path \<rightharpoonup> nat) \<Rightarrow> log_entry list \<Rightarrow> bool \<times> state" where
  "compress_pdf lib self fs lg =
     (case compress_pdf_try lib self (initial_state fs lg) of
        (Inr r, s1) \<Rightarrow> (r, s1)
      | (Inl e, s1) \<Rightarrow> (False, logger (Error_pdf e) s1))"

section \<open>Properties named by the specification\<close>

text \<open>
  The modes Pillow documents as carrying an alpha channel: \<^verbatim>\<open>RGBA\<close>, \<^verbatim>\<open>LA\<close>, \<^verbatim>\<open>PA\<close>, and
  the premultiplied \<^verbatim>\<open>RGBa\<close> and \<^verbatim>\<open>La\<close>.
\<close>

definition mode_has_alpha :: "string \<Rightarrow> bool" where
  "mode_has_alpha m = (m \<in> {''RGBA'', ''LA'', ''PA'', ''RGBa'', ''La''})"

text \<open>A rectangle that encloses no area.\<close>

definition zero_area :: "rect \<Rightarrow> bool" where
  "zero_area r = (x0 r = x1 r \<or> y0 r = y1 r)"

text \<open>
  Output page \<open>p\<close> reproduces page \<open>i\<close> of the source: it has that page's width and
  height and its first drawing operation is the copy of that page.
\<close>

definition rebuilt_from :: "library \<Rightarrow> source_doc \<Rightarrow> nat \<Rightarrow> out_page \<Rightarrow> bool" where
  "rebuilt_from lib doc i p =
     (width p = rect_width lib (page_rect (pages doc ! i)) \<and>
      height p = rect_height lib (page_rect (pages doc ! i)) \<and>
      ops p \<noteq> [] \<and>
      hd (ops p) = Show_pdf_page (page_rect (pages doc ! i)) i)"

text \<open>The storage, the two handles and the persisted document are the same in both states.\<close>

definition unchanged_outside :: "state \<Rightarrow> state \<Rightarrow> bool" where
  "unchanged_outside s s' =
     (files s' = files s \<and> pdf_document s' = pdf_document s \<and> output_pdf s' = output_pdf s \<and>
      persisted s' = persisted s)"

text \<open>
  The state of \<open>compress_pdf\<close> when the loop over the pages starts: the start is logged,
  both documents are open and the output document is empty.
\<close>

definition opened_state :: "PDFCompressor \<Rightarrow> (path \<rightharpoonup> nat) \<Rightarrow> log_entry list \<Rightarrow> state" where
  "opened_state self fs lg =
     (logger (Info_starting (input_path self)) (initial_state fs lg))
       \<lparr>pdf_document := Opened, output_pdf := Opened, out_pages := []\<rparr>"

section \<open>A sample library and sample documents\<close>

text \<open>
  PyMuPDF's truth test of a rectangle (\<^verbatim>\<open>Rect.__bool__\<close>): false exactly when all four
  coordinates are zero.
\<close>

definition fitz_rect_bool :: "rect \<Rightarrow> bool" where
  "fitz_rect_bool r = (\<not> (x0 r = 0 \<and> y0 r = 0 \<and> x1 r = 0 \<and> y1 r = 0))"

definition letter :: rect where
  "letter = \<lparr>x0 = 0, y0 = 0, x1 = 612, y1 = 792\<rparr>"

definition photo_rect :: rect where
  "photo_rect = \<lparr>x0 = 100, y0 = 100, x1 = 300, y1 = 250\<rparr>"

definition photo_item :: img_item where
  "photo_item = \<lparr>xref = 5, img_name = ''Im0''\<rparr>"

definition photo_bytes :: bytes where
  "photo_bytes = [255, 216, 255, 224]"

definition photo :: pil_image where
  "photo = \<lparr>mode = ''RGB'', im_size = (2, 1), pixels = [10, 20, 30, 40, 50, 60]\<rparr>"

definition logo_bytes :: bytes where
  "logo_bytes = [137, 80, 78, 71]"

definition logo :: pil_image where
  "logo = \<lparr>mode = ''RGBA'', im_size = (1, 1), pixels = [10, 20, 30, 128]\<rparr>"

definition logo_alpha :: pil_image where
  "logo_alpha = \<lparr>mode = ''L'', im_size = (1, 1), pixels = [128]\<rparr>"

definition palette_bytes :: bytes where
  "palette_bytes = [73, 73, 42, 0]"

definition palette_image :: pil_image where
  "palette_image = \<lparr>mode = ''PA'', im_size = (1, 1), pixels = [7, 128]\<rparr>"

text \<open>A page with one image, placed at \<open>bbox\<close>, and a page without images.\<close>

definition photo_page :: "rect \<Rightarrow> source_page" where
  "photo_page bbox =
     \<lparr>page_rect = letter, get_images = Inr [photo_item], get_image_bbox = (\<lambda>i. Inr bbox)\<rparr>"

definition text_page :: source_page where
  "text_page =
     \<lparr>page_rect = letter, get_images = Inr [],
      get_image_bbox = (\<lambda>i. Inl (LibraryError ''bad image name''))\<rparr>"

definition sample_doc :: "rect \<Rightarrow> bytes \<Rightarrow> source_doc" where
  "sample_doc bbox stream =
     \<lparr>pages = [photo_page bbox, text_page],
      extract_image = (\<lambda>x. if x = 5 then Inr (Some \<lparr>bi_image = stream, bi_ext = ''jpeg''\<rparr>)
                            else Inl (LibraryError ''bad xref''))\<rparr>"

text \<open>
  A library that opens \<^verbatim>\<open>in.pdf\<close> as \<open>sample_doc bbox stream\<close>, decodes three byte strings,
  encodes to JPEG and PNG only, refuses to insert an image into an empty rectangle,
  and saves to any path but \<^verbatim>\<open>/readonly/out.pdf\<close>.
\<close>

definition sample_lib :: "rect \<Rightarrow> bytes \<Rightarrow> library" where
  "sample_lib bbox stream =
     \<lparr>fitz_open = (\<lambda>p. if p = ''in.pdf'' then Inr (sample_doc bbox stream)
                        else Inl (LibraryError ''cannot open file'')),
      rect_width = (\<lambda>r. x1 r - x0 r),
      rect_height = (\<lambda>r. y1 r - y0 r),
      rect_bool = fitz_rect_bool,
      show_pdf_page = (\<lambda>r n. Inr ()),
      insert_image = (\<lambda>r b. if x0 r < x1 r \<and> y0 r < y1 r then Inr ()
                             else Inl (LibraryError ''rect must be finite and not empty'')),
      doc_save = (\<lambda>p pgs. if p = ''/readonly/out.pdf'' then Inl (OSError p)
                          else Inr (400 * length pgs)),
      Image_open = (\<lambda>b. if b = photo_bytes then Inr photo
                         else if b = logo_bytes then Inr logo
                         else if b = palette_bytes then Inr palette_image
                         else Inl (LibraryError ''cannot identify image file'')),
      Image_split = (\<lambda>im. if im = logo then [photo, logo_alpha] else [im]),
      Image_paste = (\<lambda>background im mask. Inr (map (\<lambda>v. (v + 255) div 2) (take 3 (pixels im)))),
      Image_save = (\<lambda>im args. if format args \<in> {''JPEG'', ''PNG''} \<and> mode im \<in> {''RGB'', ''L''}
                                then Inr [length (pixels im), nat (quality args)]
                                else Inl (LibraryError ''encoder error''))\<rparr>"

text \<open>The same library with an encoder that rejects a quality outside 1 to 100.\<close>

definition strict_lib :: library where
  "strict_lib =
     (sample_lib photo_rect photo_bytes)
       \<lparr>Image_save := (\<lambda>im args. if 1 \<le> quality args \<and> quality args \<le> 100
                                    then Inr [length (pixels im), nat (quality args)]
                                    else Inl (LibraryError ''invalid quality''))\<rparr>"

text \<open>
  The library that opens \<^verbatim>\<open>in.pdf\<close> with the RGBA image on its first page, and whose
  \<^verbatim>\<open>paste\<close> fails: Pillow reads the pixels only then, and the image file is truncated.
\<close>

definition truncated_lib :: library where
  "truncated_lib =
     (sample_lib photo_rect logo_bytes)
       \<lparr>Image_paste := (\<lambda>background im mask. Inl (LibraryError ''image file is truncated''))\<rparr>"

definition sample_self :: PDFCompressor where
  "sample_self = init ''in.pdf'' ''out.pdf'' (Some 50)"

definition sample_files :: "path \<rightharpoonup> nat" where
  "sample_files = [''in.pdf'' \<mapsto> 1000]"

section \<open>Facts about compress_image\<close>

lemma upper_lower_char: "upper_char (lower_char c) = upper_char c"
proof (cases "65 \<le> (of_char c :: nat) \<and> (of_char c :: nat) \<le> 90")
  case True
  then have "of_char (char_of (of_char c + 32 :: nat)) = (of_char c + 32 :: nat)"
    by (simp add: of_char_of)
  with True have "upper_char (lower_char c) = char_of (of_char c :: nat)"
    by (simp add: upper_char_def lower_char_def Let_def)
  moreover from True have "upper_char c = c"
    by (simp add: upper_char_def Let_def)
  ultimately show ?thesis by simp
next
  case False
  then have "lower_char c = c"
    by (auto simp: lower_char_def Let_def)
  then show ?thesis by simp
qed

lemma upper_lower: "upper (lower s) = upper s"
  by (simp add: upper_def lower_def upper_lower_char)

lemma lower_eq_upper_eq: "lower a = lower b \<Longrightarrow> upper a = upper b"
  by (metis upper_lower)

lemma save_arguments_case_insensitive:
  "lower a = lower b \<Longrightarrow> save_arguments a q = save_arguments b q"
proof -
  assume h: "lower a = lower b"
  then have "upper a = upper b" by (rule lower_eq_upper_eq)
  with h show ?thesis unfolding save_arguments_def by presburger
qed

lemma compress_image_decode_error:
  "Image_open lib b = Inl e \<Longrightarrow> compress_image lib self b x s = (None, logger (Error_image e) s)"
  by (simp add: compress_image_def compress_image_try_def)

lemma compress_image_convert_error:
  "Image_open lib b = Inr im \<Longrightarrow> convert_rgba_to_rgb lib im = Inl e \<Longrightarrow>
   compress_image lib self b x s = (None, logger (Error_image e) s)"
  by (simp add: compress_image_def compress_image_try_def)

lemma compress_image_encode:
  "Image_open lib b = Inr im \<Longrightarrow> convert_rgba_to_rgb lib im = Inr im' \<Longrightarrow>
   compress_image lib self b x s =
     (case Image_save lib im' (save_arguments x (image_quality self)) of
        Inl e \<Rightarrow> (None, logger (Error_image e)
                    (s\<lparr>encoder_calls := encoder_calls s @ [(im', save_arguments x (image_quality self))]\<rparr>))
      | Inr out \<Rightarrow> (Some out,
                    s\<lparr>encoder_calls := encoder_calls s @ [(im', save_arguments x (image_quality self))]\<rparr>))"
  by (simp add: compress_image_def compress_image_try_def Let_def split: sum.splits)

lemma compress_image_frame:
  "compress_image lib self b x s = (r, s1) \<Longrightarrow>
   files s1 = files s \<and> pdf_document s1 = pdf_document s \<and> output_pdf s1 = output_pdf s \<and>
   out_pages s1 = out_pages s \<and> persisted s1 = persisted s"
  by (auto simp: compress_image_def compress_image_try_def logger_def Let_def split: sum.splits)

lemma compress_image_calls:
  "compress_image lib self b x s = (r, s1) \<Longrightarrow>
   encoder_calls s1 = encoder_calls s \<or>
   (\<exists>im. encoder_calls s1 = encoder_calls s @ [(im, save_arguments x (image_quality self))])"
  by (auto simp: compress_image_def compress_image_try_def logger_def Let_def split: sum.splits)

lemma quality_save_arguments: "quality (save_arguments x q) = q"
  by (simp add: save_arguments_def)

lemma sa_jpeg: "lower x = ''jpg'' \<or> lower x = ''jpeg'' \<Longrightarrow>
   save_arguments x q = \<lparr>format = ''JPEG'', quality = q, optimize = Some True\<rparr>"
  unfolding save_arguments_def by (rule if_P) blast

lemma sa_png: "lower x = ''png'' \<Longrightarrow>
   save_arguments x q = \<lparr>format = ''PNG'', quality = q, optimize = Some True\<rparr>"
proof -
  assume h: "lower x = ''png''"
  have n: "lower x \<notin> {''jpg'', ''jpeg''}" unfolding h by simp
  show ?thesis unfolding save_arguments_def
    by (simp only: if_not_P [OF n] if_P [OF h])
qed

lemma sa_other: "lower x \<noteq> ''jpg'' \<Longrightarrow> lower x \<noteq> ''jpeg'' \<Longrightarrow> lower x \<noteq> ''png'' \<Longrightarrow>
   save_arguments x q = \<lparr>format = upper x, quality = q, optimize = None\<rparr>"
proof -
  assume h: "lower x \<noteq> ''jpg''" "lower x \<noteq> ''jpeg''" "lower x \<noteq> ''png''"
  then have n: "lower x \<notin> {''jpg'', ''jpeg''}" by blast
  show ?thesis unfolding save_arguments_def
    by (simp only: if_not_P [OF n] if_not_P [OF h(3)])
qed

lemma for_each_invariant:
  assumes step: "\<And>x s r s'. x \<in> set xs \<Longrightarrow> P s \<Longrightarrow> body x s = (r, s') \<Longrightarrow> P s'"
    and start: "P s"
    and run: "for_each xs body s = (r, s')"
  shows "P s'"
  using assms
proof (induction xs arbitrary: s)
  case Nil
  then show ?case by simp
next
  case (Cons x xs)
  obtain r1 s1 where b: "body x s = (r1, s1)" by (cases "body x s")
  have p1: "P s1" using Cons.prems(1) [of x s r1 s1] Cons.prems(2) b by simp
  show ?case
  proof (cases r1)
    case (Inl e)
    with b Cons.prems(3) have "s' = s1" by simp
    with p1 show ?thesis by simp
  next
    case (Inr u)
    with b Cons.prems(3) have run': "for_each xs body s1 = (r, s')" by simp
    have step': "\<And>y t q t'. y \<in> set xs \<Longrightarrow> P t \<Longrightarrow> body y t = (q, t') \<Longrightarrow> P t'"
    proof -
      fix y t q t'
      assume "y \<in> set xs" "P t" "body y t = (q, t')"
      then show "P t'" using Cons.prems(1) [of y t q t'] by simp
    qed
    show ?thesis by (rule Cons.IH [OF step' p1 run'])
  qed
qed

section \<open>Alpha channels\<close>

text \<open>
  C6, as amended. For every decodable image whose mode is \<^verbatim>\<open>RGBA\<close> or \<^verbatim>\<open>LA\<close>,
  \<open>compress_image\<close> pastes the image, masked by its last band, onto a white \<^verbatim>\<open>RGB\<close>
  image of the same size and hands that \<^verbatim>\<open>RGB\<close> image to the encoder (when the paste
  itself succeeds). For every decodable image of any other mode, the other modes with
  alpha included, the decoded image is handed to the encoder unchanged.
\<close>

theorem alpha_modes_RGBA_LA:
  assumes "Image_open lib image_bytes = Inr im"
  shows "(mode im = ''RGBA'' \<or> mode im = ''LA'' \<longrightarrow>
           (\<forall>px. Image_split lib im \<noteq> [] \<and>
                 Image_paste lib (Image_new_white (im_size im)) im (last (Image_split lib im)) = Inr px \<longrightarrow>
                 encoder_calls (snd (compress_image lib self image_bytes image_ext s)) =
                   encoder_calls s @
                     [(\<lparr>mode = ''RGB'', im_size = im_size im, pixels = px\<rparr>,
                       save_arguments image_ext (image_quality self))])) \<and>
         (mode im \<noteq> ''RGBA'' \<and> mode im \<noteq> ''LA'' \<longrightarrow>
            encoder_calls (snd (compress_image lib self image_bytes image_ext s)) =
              encoder_calls s @ [(im, save_arguments image_ext (image_quality self))])"
proof (intro conjI impI allI)
  fix px
  assume m: "mode im = ''RGBA'' \<or> mode im = ''LA''"
    and p: "Image_split lib im \<noteq> [] \<and>
            Image_paste lib (Image_new_white (im_size im)) im (last (Image_split lib im)) = Inr px"
  from m p have "convert_rgba_to_rgb lib im = Inr \<lparr>mode = ''RGB'', im_size = im_size im, pixels = px\<rparr>"
    by (auto simp: convert_rgba_to_rgb_def Let_def Image_new_white_def split: list.splits)
  from compress_image_encode [OF assms this]
  show "encoder_calls (snd (compress_image lib self image_bytes image_ext s)) =
          encoder_calls s @
            [(\<lparr>mode = ''RGB'', im_size = im_size im, pixels = px\<rparr>,
              save_arguments image_ext (image_quality self))]"
    by (simp add: logger_def split: sum.splits)
next
  assume "mode im \<noteq> ''RGBA'' \<and> mode im \<noteq> ''LA''"
  then have "convert_rgba_to_rgb lib im = Inr im"
    by (simp add: convert_rgba_to_rgb_def)
  from compress_image_encode [OF assms this]
  show "encoder_calls (snd (compress_image lib self image_bytes image_ext s)) =
          encoder_calls s @ [(im, save_arguments image_ext (image_quality self))]"
    by (simp add: logger_def split: sum.splits)
qed

theorem alpha_modes_RGBA_LA_witness:
  "Image_open (sample_lib photo_rect photo_bytes) logo_bytes = Inr logo \<and>
   mode logo = ''RGBA'' \<and>
   encoder_calls (snd (compress_image (sample_lib photo_rect photo_bytes) sample_self logo_bytes
       ''png'' (initial_state sample_files []))) =
     [(\<lparr>mode = ''RGB'', im_size = (1, 1), pixels = [132, 137, 142]\<rparr>,
       save_arguments ''png'' 50)] \<and>
   Image_open (sample_lib photo_rect photo_bytes) photo_bytes = Inr photo \<and>
   mode photo = ''RGB'' \<and>
   encoder_calls (snd (compress_image (sample_lib photo_rect photo_bytes) sample_self photo_bytes
       ''png'' (initial_state sample_files []))) =
     [(photo, save_arguments ''png'' 50)]"
proof -
  let ?L = "sample_lib photo_rect photo_bytes"
  let ?s = "initial_state sample_files []"
  have o1: "Image_open ?L logo_bytes = Inr logo" by code_simp
  have m1: "mode logo = ''RGBA''" by (simp add: logo_def)
  have p1: "Image_split ?L logo \<noteq> [] \<and>
            Image_paste ?L (Image_new_white (im_size logo)) logo (last (Image_split ?L logo)) =
              Inr [132, 137, 142]"
    by code_simp
  have sz: "im_size logo = (1, 1)" by (simp add: logo_def)
  have q: "image_quality sample_self = 50" by (simp add: sample_self_def init_def)
  have e: "encoder_calls ?s = []" by (simp add: initial_state_def)
  have o2: "Image_open ?L photo_bytes = Inr photo" by code_simp
  have m2: "mode photo = ''RGB''" by (simp add: photo_def)
  from alpha_modes_RGBA_LA [OF o1, of sample_self "''png''" ?s] m1 p1
  have r1: "encoder_calls (snd (compress_image ?L sample_self logo_bytes ''png'' ?s)) =
              [(\<lparr>mode = ''RGB'', im_size = (1, 1), pixels = [132, 137, 142]\<rparr>,
                save_arguments ''png'' 50)]"
    by (simp add: sz q e)
  from alpha_modes_RGBA_LA [OF o2, of sample_self "''png''" ?s] m2
  have r2: "encoder_calls (snd (compress_image ?L sample_self photo_bytes ''png'' ?s)) =
              [(photo, save_arguments ''png'' 50)]"
    by (simp add: q e)
  from o1 m1 r1 o2 m2 r2 show ?thesis by blast
qed

text \<open>
  C6 as stated fails: an image of mode \<^verbatim>\<open>PA\<close> carries alpha, and \<open>compress_image\<close> hands
  it to the encoder as it was decoded, in mode \<^verbatim>\<open>PA\<close>.
\<close>

theorem alpha_mode_PA_counterexample:
  "mode_has_alpha (mode palette_image) \<and>
   Image_open (sample_lib photo_rect photo_bytes) palette_bytes = Inr palette_image \<and>
   encoder_calls (snd (compress_image (sample_lib photo_rect photo_bytes) sample_self palette_bytes
       ''png'' (initial_state sample_files []))) =
     [(palette_image, \<lparr>format = ''PNG'', quality = 50, optimize = Some True\<rparr>)] \<and>
   mode palette_image \<noteq> ''RGB''"
  by code_simp

section \<open>The encoding policy\<close>

text \<open>
  C9. For a decoded (and, where needed, converted) image, the arguments of the encoder
  depend on the lower-cased format hint: \<^verbatim>\<open>jpg\<close> and \<^verbatim>\<open>jpeg\<close> give format \<^verbatim>\<open>JPEG\<close> with
  the configured quality and \<^verbatim>\<open>optimize=True\<close>; \<^verbatim>\<open>png\<close> gives format \<^verbatim>\<open>PNG\<close> with
  \<^verbatim>\<open>optimize=True\<close> and the quality still passed; every other hint gives the
  upper-cased hint as the format, with the quality and without \<^verbatim>\<open>optimize\<close>. Two hints
  that differ only in case give the same arguments. When the encoder accepts,
  \<open>compress_image\<close> returns its bytes; when it rejects, \<open>compress_image\<close> logs the error
  and returns \<open>None\<close>, so the failure stays with that image.
\<close>

theorem encoding_policy:
  assumes "Image_open lib image_bytes = Inr im"
    and "convert_rgba_to_rgb lib im = Inr im'"
  shows "(lower image_ext = ''jpg'' \<or> lower image_ext = ''jpeg'' \<longrightarrow>
            save_arguments image_ext (image_quality self) =
              \<lparr>format = ''JPEG'', quality = image_quality self, optimize = Some True\<rparr>) \<and>
         (lower image_ext = ''png'' \<longrightarrow>
            save_arguments image_ext (image_quality self) =
              \<lparr>format = ''PNG'', quality = image_quality self, optimize = Some True\<rparr>) \<and>
         (lower image_ext \<noteq> ''jpg'' \<and> lower image_ext \<noteq> ''jpeg'' \<and> lower image_ext \<noteq> ''png'' \<longrightarrow>
            save_arguments image_ext (image_quality self) =
              \<lparr>format = upper image_ext, quality = image_quality self, optimize = None\<rparr>) \<and>
         (\<forall>other. lower other = lower image_ext \<longrightarrow>
            save_arguments other (image_quality self) =
              save_arguments image_ext (image_quality self)) \<and>
         (\<forall>out. Image_save lib im' (save_arguments image_ext (image_quality self)) = Inr out \<longrightarrow>
            compress_image lib self image_bytes image_ext s =
              (Some out,
               s\<lparr>encoder_calls := encoder_calls s @
                    [(im', save_arguments image_ext (image_quality self))]\<rparr>)) \<and>
         (\<forall>e. Image_save lib im' (save_arguments image_ext (image_quality self)) = Inl e \<longrightarrow>
            compress_image lib self image_bytes image_ext s =
              (None,
               logger (Error_image e)
                 (s\<lparr>encoder_calls := encoder_calls s @
                      [(im', save_arguments image_ext (image_quality self))]\<rparr>)))"
proof (intro conjI impI allI)
  assume "lower image_ext = ''jpg'' \<or> lower image_ext = ''jpeg''"
  then show "save_arguments image_ext (image_quality self) =
            \<lparr>format = ''JPEG'', quality = image_quality self, optimize = Some True\<rparr>"
    by (rule sa_jpeg)
next
  assume "lower image_ext = ''png''"
  then show "save_arguments image_ext (image_quality self) =
            \<lparr>format = ''PNG'', quality = image_quality self, optimize = Some True\<rparr>"
    by (rule sa_png)
next
  assume "lower image_ext \<noteq> ''jpg'' \<and> lower image_ext \<noteq> ''jpeg'' \<and> lower image_ext \<noteq> ''png''"
  then show "save_arguments image_ext (image_quality self) =
            \<lparr>format = upper image_ext, quality = image_quality self, optimize = None\<rparr>"
    using sa_other by blast
next
  fix other
  assume "lower other = lower image_ext"
  then show "save_arguments other (image_quality self) =
            save_arguments image_ext (image_quality self)"
    by (rule save_arguments_case_insensitive)
next
  fix out
  assume "Image_save lib im' (save_arguments image_ext (image_quality self)) = Inr out"
  then show "compress_image lib self image_bytes image_ext s =
            (Some out,
             s\<lparr>encoder_calls := encoder_calls s @
                  [(im', save_arguments image_ext (image_quality self))]\<rparr>)"
    by (simp add: compress_image_encode [OF assms])
next
  fix e
  assume "Image_save lib im' (save_arguments image_ext (image_quality self)) = Inl e"
  then show "compress_image lib self image_bytes image_ext s =
            (None,
             logger (Error_image e)
               (s\<lparr>encoder_calls := encoder_calls s @
                    [(im', save_arguments image_ext (image_quality self))]\<rparr>))"
    by (simp add: compress_image_encode [OF assms])
qed


theorem encoding_policy_witness:
  "Image_open (sample_lib photo_rect photo_bytes) photo_bytes = Inr photo \<and>
   convert_rgba_to_rgb (sample_lib photo_rect photo_bytes) photo = Inr photo \<and>
   lower ''JPG'' = ''jpg'' \<and>
   save_arguments ''JPG'' (image_quality sample_self) =
     \<lparr>format = ''JPEG'', quality = image_quality sample_self, optimize = Some True\<rparr> \<and>
   lower ''Png'' = ''png'' \<and>
   save_arguments ''Png'' (image_quality sample_self) =
     \<lparr>format = ''PNG'', quality = image_quality sample_self, optimize = Some True\<rparr> \<and>
   save_arguments ''jpx'' (image_quality sample_self) =
     \<lparr>format = upper ''jpx'', quality = image_quality sample_self, optimize = None\<rparr> \<and>
   upper ''jpx'' = ''JPX'' \<and>
   image_quality sample_self = 50 \<and>
   compress_image (sample_lib photo_rect photo_bytes) sample_self photo_bytes ''JPG''
       (initial_state sample_files []) =
     (Some [6, 50],
      (initial_state sample_files [])
        \<lparr>encoder_calls := encoder_calls (initial_state sample_files []) @
           [(photo, save_arguments ''JPG'' (image_quality sample_self))]\<rparr>) \<and>
   compress_image (sample_lib photo_rect photo_bytes) sample_self photo_bytes ''jpx''
       (initial_state sample_files []) =
     (None,
      logger (Error_image (LibraryError ''encoder error''))
        ((initial_state sample_files [])
           \<lparr>encoder_calls := encoder_calls (initial_state sample_files []) @
              [(photo, save_arguments ''jpx'' (image_quality sample_self))]\<rparr>))"
proof -
  let ?L = "sample_lib photo_rect photo_bytes"
  let ?s = "initial_state sample_files []"
  have o: "Image_open ?L photo_bytes = Inr photo" by code_simp
  have c: "convert_rgba_to_rgb ?L photo = Inr photo" by code_simp
  have q: "image_quality sample_self = 50" by (simp add: sample_self_def init_def)
  have l1: "lower ''JPG'' = ''jpg''" by code_simp
  have l2: "lower ''Png'' = ''png''" by code_simp
  have l3: "lower ''jpx'' \<noteq> ''jpg'' \<and> lower ''jpx'' \<noteq> ''jpeg'' \<and> lower ''jpx'' \<noteq> ''png''"
    by code_simp
  have u3: "upper ''jpx'' = ''JPX''" by code_simp
  have s1: "Image_save ?L photo (save_arguments ''JPG'' (image_quality sample_self)) = Inr [6, 50]"
    by code_simp
  have s3: "Image_save ?L photo (save_arguments ''jpx'' (image_quality sample_self)) =
              Inl (LibraryError ''encoder error'')"
    by code_simp
  note jpg = encoding_policy [OF o c, of "''JPG''" sample_self ?s]
  note png = encoding_policy [OF o c, of "''Png''" sample_self ?s]
  note jpx = encoding_policy [OF o c, of "''jpx''" sample_self ?s]
  from jpg l1 have a1: "save_arguments ''JPG'' (image_quality sample_self) =
     \<lparr>format = ''JPEG'', quality = image_quality sample_self, optimize = Some True\<rparr>"
    by blast
  from png l2 have a2: "save_arguments ''Png'' (image_quality sample_self) =
     \<lparr>format = ''PNG'', quality = image_quality sample_self, optimize = Some True\<rparr>"
    by blast
  from jpx l3 have a3: "save_arguments ''jpx'' (image_quality sample_self) =
     \<lparr>format = upper ''jpx'', quality = image_quality sample_self, optimize = None\<rparr>"
    by blast
  from jpg s1 have r1: "compress_image ?L sample_self photo_bytes ''JPG'' ?s =
     (Some [6, 50],
      ?s\<lparr>encoder_calls := encoder_calls ?s @
           [(photo, save_arguments ''JPG'' (image_quality sample_self))]\<rparr>)"
    by blast
  from jpx s3 have r3: "compress_image ?L sample_self photo_bytes ''jpx'' ?s =
     (None,
      logger (Error_image (LibraryError ''encoder error''))
        (?s\<lparr>encoder_calls := encoder_calls ?s @
              [(photo, save_arguments ''jpx'' (image_quality sample_self))]\<rparr>))"
    by blast
  from o c l1 a1 l2 a2 a3 u3 q r1 r3 show ?thesis by blast
qed

section \<open>Facts about the loop over the images of a page\<close>

lemma unchanged_outside_refl: "unchanged_outside s s"
  by (simp add: unchanged_outside_def)

lemma unchanged_outside_trans:
  "unchanged_outside s t \<Longrightarrow> unchanged_outside t u \<Longrightarrow> unchanged_outside s u"
  by (simp add: unchanged_outside_def)

lemma unchanged_outside_logger: "unchanged_outside s (logger entry s)"
  by (simp add: unchanged_outside_def logger_def)

lemma unchanged_outside_draw: "unchanged_outside s (draw idx operation s)"
  by (simp add: unchanged_outside_def draw_def)

lemma unchanged_outside_compress_image:
  "compress_image lib self b x s = (r, s1) \<Longrightarrow> unchanged_outside s s1"
  using compress_image_frame [of lib self b x s r s1] by (simp add: unchanged_outside_def)

lemma length_out_pages_draw: "length (out_pages (draw idx operation s)) = length (out_pages s)"
  by (simp add: draw_def)

lemma encoder_calls_draw: "encoder_calls (draw idx operation s) = encoder_calls s"
  by (simp add: draw_def)

lemma rebuilt_from_draw:
  "i < length (out_pages s) \<Longrightarrow> rebuilt_from lib doc i (out_pages s ! i) \<Longrightarrow>
   rebuilt_from lib doc i (out_pages (draw idx operation s) ! i)"
  by (cases "i = idx") (simp_all add: draw_def rebuilt_from_def)

lemma process_image_extract_raises:
  "extract_image doc (xref img) = Inl e \<Longrightarrow>
   process_image lib self doc page output_page img s = (Inl e, s)"
  by (simp add: process_image_def)

lemma process_image_no_image:
  "extract_image doc (xref img) = Inr None \<Longrightarrow>
   process_image lib self doc page output_page img s = (Inr (), s)"
  by (simp add: process_image_def)

lemma process_image_not_compressed:
  "extract_image doc (xref img) = Inr (Some base) \<Longrightarrow>
   compress_image lib self (bi_image base) (bi_ext base) s = (None, s1) \<Longrightarrow>
   process_image lib self doc page output_page img s = (Inr (), s1)"
  by (simp add: process_image_def)

lemma process_image_compressed:
  "extract_image doc (xref img) = Inr (Some base) \<Longrightarrow>
   compress_image lib self (bi_image base) (bi_ext base) s = (Some compressed_bytes, s1) \<Longrightarrow>
   process_image lib self doc page output_page img s =
     (case get_image_bbox page img of
        Inl e \<Rightarrow> (Inl e, s1)
      | Inr image_rect \<Rightarrow>
         (if rect_bool lib image_rect then
            (case insert_image lib image_rect compressed_bytes of
               Inl e \<Rightarrow> (Inl e, s1)
             | Inr u \<Rightarrow> (Inr (), draw output_page (Insert_image image_rect compressed_bytes) s1))
          else (Inr (), s1)))"
  by (simp add: process_image_def)

text \<open>What one image can do to the state.\<close>

lemma process_image_effect:
  assumes "process_image lib self doc page output_page img s = (r, s')"
  shows "s' = s \<or>
         (\<exists>b x r1 s1. compress_image lib self b x s = (r1, s1) \<and>
            (s' = s1 \<or> (\<exists>operation. s' = draw output_page operation s1)))"
proof (cases "extract_image doc (xref img)")
  case (Inl e)
  from process_image_extract_raises [OF Inl] assms show ?thesis by simp
next
  case (Inr found)
  show ?thesis
  proof (cases found)
    case None
    with Inr have "extract_image doc (xref img) = Inr None" by simp
    from process_image_no_image [OF this] assms show ?thesis by simp
  next
    case (Some base)
    with Inr have ex: "extract_image doc (xref img) = Inr (Some base)" by simp
    obtain r1 s1 where ci: "compress_image lib self (bi_image base) (bi_ext base) s = (r1, s1)"
      by (cases "compress_image lib self (bi_image base) (bi_ext base) s")
    show ?thesis
    proof (cases r1)
      case None
      with ci have "compress_image lib self (bi_image base) (bi_ext base) s = (None, s1)" by simp
      from process_image_not_compressed [OF ex this] assms have "s' = s1" by simp
      with ci show ?thesis by blast
    next
      case (Some compressed_bytes)
      with ci have c: "compress_image lib self (bi_image base) (bi_ext base) s =
                         (Some compressed_bytes, s1)" by simp
      from process_image_compressed [OF ex c] assms
      have "s' = s1 \<or> (\<exists>operation. s' = draw output_page operation s1)"
        by (auto split: sum.splits if_splits)
      with ci show ?thesis by blast
    qed
  qed
qed

lemma process_image_unchanged_outside:
  assumes "process_image lib self doc page output_page img s = (r, s')"
  shows "unchanged_outside s s'"
  using process_image_effect [OF assms]
  by (auto intro: unchanged_outside_refl unchanged_outside_compress_image
        unchanged_outside_trans [OF unchanged_outside_compress_image unchanged_outside_draw])

lemma process_image_pages:
  assumes "process_image lib self doc page output_page img s = (r, s')"
  shows "length (out_pages s') = length (out_pages s) \<and>
         (\<forall>i < length (out_pages s). rebuilt_from lib doc i (out_pages s ! i) \<longrightarrow>
            rebuilt_from lib doc i (out_pages s' ! i))"
proof -
  from process_image_effect [OF assms]
  consider "s' = s"
    | b x r1 s1 where "compress_image lib self b x s = (r1, s1)" "s' = s1"
    | b x r1 s1 operation where "compress_image lib self b x s = (r1, s1)"
        "s' = draw output_page operation s1"
    by blast
  then show ?thesis
  proof cases
    case 1
    then show ?thesis by simp
  next
    case (2 b x r1 s1)
    from compress_image_frame [OF 2(1)] 2(2) show ?thesis by simp
  next
    case (3 b x r1 s1 operation)
    from compress_image_frame [OF 3(1)] have o: "out_pages s1 = out_pages s" by simp
    show ?thesis
      unfolding 3(2) length_out_pages_draw o [symmetric]
      by (simp add: rebuilt_from_draw)
  qed
qed

lemma process_image_quality:
  assumes "process_image lib self doc page output_page img s = (r, s')"
    and "\<forall>c \<in> set (encoder_calls s). quality (snd c) = image_quality self"
  shows "\<forall>c \<in> set (encoder_calls s'). quality (snd c) = image_quality self"
proof -
  have step: "\<forall>c \<in> set (encoder_calls s1). quality (snd c) = image_quality self"
    if "compress_image lib self b x s = (r1, s1)" for b x r1 s1
    using compress_image_calls [OF that] assms(2) by (auto simp: quality_save_arguments)
  from process_image_effect [OF assms(1)]
  consider "s' = s"
    | b x r1 s1 where "compress_image lib self b x s = (r1, s1)" "s' = s1"
    | b x r1 s1 operation where "compress_image lib self b x s = (r1, s1)"
        "s' = draw output_page operation s1"
    by blast
  then show ?thesis
  proof cases
    case 1
    with assms(2) show ?thesis by simp
  next
    case (2 b x r1 s1)
    from step [OF 2(1)] 2(2) show ?thesis by simp
  next
    case (3 b x r1 s1 operation)
    from step [OF 3(1)] show ?thesis unfolding 3(2) encoder_calls_draw .
  qed
qed

section \<open>Facts about the loop over the pages\<close>

lemma out_pages_logger: "out_pages (logger entry s) = out_pages s"
  by (simp add: logger_def)

lemma process_page_get_images_raises:
  "get_images (pages doc ! page_num) = Inl e \<Longrightarrow>
   process_page lib self doc total_pages page_num s =
     (Inl e, logger (Info_processing (page_num + 1) total_pages) s)"
  by (simp add: process_page_def Let_def)

lemma process_page_show_raises:
  "get_images (pages doc ! page_num) = Inr images \<Longrightarrow>
   show_pdf_page lib (page_rect (pages doc ! page_num)) page_num = Inl e \<Longrightarrow>
   process_page lib self doc total_pages page_num s =
     (Inl e,
      snd (new_page (rect_width lib (page_rect (pages doc ! page_num)))
             (rect_height lib (page_rect (pages doc ! page_num)))
             (logger (Info_processing (page_num + 1) total_pages) s)))"
  by (simp add: process_page_def Let_def new_page_def)

lemma process_page_images:
  "get_images (pages doc ! page_num) = Inr images \<Longrightarrow>
   show_pdf_page lib (page_rect (pages doc ! page_num)) page_num = Inr u \<Longrightarrow>
   process_page lib self doc total_pages page_num s =
     for_each images
       (process_image lib self doc (pages doc ! page_num) (length (out_pages s)))
       (draw (length (out_pages s)) (Show_pdf_page (page_rect (pages doc ! page_num)) page_num)
          (snd (new_page (rect_width lib (page_rect (pages doc ! page_num)))
                  (rect_height lib (page_rect (pages doc ! page_num)))
                  (logger (Info_processing (page_num + 1) total_pages) s))))"
proof (cases "images = []")
  case True
  assume "get_images (pages doc ! page_num) = Inr images"
    and "show_pdf_page lib (page_rect (pages doc ! page_num)) page_num = Inr u"
  with True show ?thesis
    by (simp add: process_page_def Let_def new_page_def out_pages_logger)
next
  case False
  assume "get_images (pages doc ! page_num) = Inr images"
    and "show_pdf_page lib (page_rect (pages doc ! page_num)) page_num = Inr u"
  with False show ?thesis
    by (simp add: process_page_def Let_def new_page_def out_pages_logger)
qed

lemma unchanged_outside_new_page: "unchanged_outside s (snd (new_page w h s))"
  by (simp add: unchanged_outside_def new_page_def)

lemma encoder_calls_page_start:
  "encoder_calls (draw idx operation (snd (new_page w h (logger entry s)))) = encoder_calls s"
  by (simp add: draw_def new_page_def logger_def)

lemma unchanged_outside_page_start:
  "unchanged_outside s (draw idx operation (snd (new_page w h (logger entry s))))"
  by (simp add: unchanged_outside_def draw_def new_page_def logger_def)

lemma pages_page_start:
  assumes "length (out_pages s) = k"
    and "\<forall>i<k. rebuilt_from lib doc i (out_pages s ! i)"
  shows "length (out_pages (draw k (Show_pdf_page (page_rect (pages doc ! k)) k)
            (snd (new_page (rect_width lib (page_rect (pages doc ! k)))
                    (rect_height lib (page_rect (pages doc ! k))) (logger entry s))))) = Suc k \<and>
         (\<forall>i<Suc k. rebuilt_from lib doc i
            (out_pages (draw k (Show_pdf_page (page_rect (pages doc ! k)) k)
               (snd (new_page (rect_width lib (page_rect (pages doc ! k)))
                       (rect_height lib (page_rect (pages doc ! k))) (logger entry s)))) ! i))"
  using assms
  by (auto simp: draw_def new_page_def logger_def nth_append rebuilt_from_def less_Suc_eq)

lemma process_page_unchanged_outside:
  assumes "process_page lib self doc total_pages page_num s = (r, s')"
  shows "unchanged_outside s s'"
proof (cases "get_images (pages doc ! page_num)")
  case (Inl e)
  from process_page_get_images_raises [OF Inl] assms show ?thesis
    by (auto simp: unchanged_outside_logger)
next
  case (Inr images)
  show ?thesis
  proof (cases "show_pdf_page lib (page_rect (pages doc ! page_num)) page_num")
    case (Inl e)
    from process_page_show_raises [OF Inr Inl] assms show ?thesis
      by (auto intro: unchanged_outside_trans [OF unchanged_outside_logger unchanged_outside_new_page])
  next
    case show_ok: (Inr u)
    from process_page_images [OF Inr show_ok] assms
    have run: "for_each images
       (process_image lib self doc (pages doc ! page_num) (length (out_pages s)))
       (draw (length (out_pages s)) (Show_pdf_page (page_rect (pages doc ! page_num)) page_num)
          (snd (new_page (rect_width lib (page_rect (pages doc ! page_num)))
                  (rect_height lib (page_rect (pages doc ! page_num)))
                  (logger (Info_processing (page_num + 1) total_pages) s)))) = (r, s')"
      by simp
    show ?thesis
    proof (rule for_each_invariant [where P = "unchanged_outside s", OF _ _ run])
      show "unchanged_outside s
        (draw (length (out_pages s)) (Show_pdf_page (page_rect (pages doc ! page_num)) page_num)
          (snd (new_page (rect_width lib (page_rect (pages doc ! page_num)))
                  (rect_height lib (page_rect (pages doc ! page_num)))
                  (logger (Info_processing (page_num + 1) total_pages) s))))"
        by (rule unchanged_outside_page_start)
    next
      fix x t q t'
      assume "unchanged_outside s t"
        and "process_image lib self doc (pages doc ! page_num) (length (out_pages s)) x t = (q, t')"
      then show "unchanged_outside s t'"
        using process_image_unchanged_outside unchanged_outside_trans by blast
    qed
  qed
qed

lemma process_page_quality:
  assumes "process_page lib self doc total_pages page_num s = (r, s')"
    and "\<forall>c \<in> set (encoder_calls s). quality (snd c) = image_quality self"
  shows "\<forall>c \<in> set (encoder_calls s'). quality (snd c) = image_quality self"
proof (cases "get_images (pages doc ! page_num)")
  case (Inl e)
  from process_page_get_images_raises [OF Inl] assms show ?thesis
    by (auto simp: logger_def)
next
  case (Inr images)
  show ?thesis
  proof (cases "show_pdf_page lib (page_rect (pages doc ! page_num)) page_num")
    case (Inl e)
    from process_page_show_raises [OF Inr Inl] assms show ?thesis
      by (auto simp: logger_def new_page_def)
  next
    case show_ok: (Inr u)
    from process_page_images [OF Inr show_ok] assms
    have run: "for_each images
       (process_image lib self doc (pages doc ! page_num) (length (out_pages s)))
       (draw (length (out_pages s)) (Show_pdf_page (page_rect (pages doc ! page_num)) page_num)
          (snd (new_page (rect_width lib (page_rect (pages doc ! page_num)))
                  (rect_height lib (page_rect (pages doc ! page_num)))
                  (logger (Info_processing (page_num + 1) total_pages) s)))) = (r, s')"
      by simp
    show ?thesis
    proof (rule for_each_invariant
        [where P = "\<lambda>t. \<forall>c \<in> set (encoder_calls t). quality (snd c) = image_quality self",
          OF _ _ run])
      show "\<forall>c \<in> set (encoder_calls
        (draw (length (out_pages s)) (Show_pdf_page (page_rect (pages doc ! page_num)) page_num)
          (snd (new_page (rect_width lib (page_rect (pages doc ! page_num)))
                  (rect_height lib (page_rect (pages doc ! page_num)))
                  (logger (Info_processing (page_num + 1) total_pages) s))))).
          quality (snd c) = image_quality self"
        unfolding encoder_calls_page_start by (rule assms(2))
    next
      fix x t q t'
      assume "\<forall>c \<in> set (encoder_calls t). quality (snd c) = image_quality self"
        and "process_image lib self doc (pages doc ! page_num) (length (out_pages s)) x t = (q, t')"
      then show "\<forall>c \<in> set (encoder_calls t'). quality (snd c) = image_quality self"
        using process_image_quality by blast
    qed
  qed
qed

lemma process_page_pages:
  assumes run: "process_page lib self doc total_pages k s = (Inr u, s')"
    and len: "length (out_pages s) = k"
    and old: "\<forall>i<k. rebuilt_from lib doc i (out_pages s ! i)"
  shows "length (out_pages s') = Suc k \<and> (\<forall>i<Suc k. rebuilt_from lib doc i (out_pages s' ! i))"
proof (cases "get_images (pages doc ! k)")
  case (Inl e)
  from process_page_get_images_raises [OF Inl] run show ?thesis by simp
next
  case (Inr images)
  show ?thesis
  proof (cases "show_pdf_page lib (page_rect (pages doc ! k)) k")
    case (Inl e)
    from process_page_show_raises [OF Inr Inl] run show ?thesis by simp
  next
    case show_ok: (Inr v)
    let ?start = "draw k (Show_pdf_page (page_rect (pages doc ! k)) k)
          (snd (new_page (rect_width lib (page_rect (pages doc ! k)))
                  (rect_height lib (page_rect (pages doc ! k)))
                  (logger (Info_processing (k + 1) total_pages) s)))"
    from process_page_images [OF Inr show_ok, of self total_pages s] run len
    have loop: "for_each images (process_image lib self doc (pages doc ! k) k) ?start = (Inr u, s')"
      by simp
    show ?thesis
    proof (rule for_each_invariant
        [where P = "\<lambda>t. length (out_pages t) = Suc k \<and>
                        (\<forall>i<Suc k. rebuilt_from lib doc i (out_pages t ! i))",
          OF _ _ loop])
      show "length (out_pages ?start) = Suc k \<and>
            (\<forall>i<Suc k. rebuilt_from lib doc i (out_pages ?start ! i))"
        by (rule pages_page_start [OF len old])
    next
      fix x t q t'
      assume inv: "length (out_pages t) = Suc k \<and>
                   (\<forall>i<Suc k. rebuilt_from lib doc i (out_pages t ! i))"
        and step: "process_image lib self doc (pages doc ! k) k x t = (q, t')"
      from process_image_pages [OF step] inv
      show "length (out_pages t') = Suc k \<and>
            (\<forall>i<Suc k. rebuilt_from lib doc i (out_pages t' ! i))"
        by simp
    qed
  qed
qed

lemma pages_loop:
  assumes "for_each [k..<n] (process_page lib self doc total_pages) s = (Inr u, s')"
    and "length (out_pages s) = k"
    and "\<forall>i<k. rebuilt_from lib doc i (out_pages s ! i)"
    and "k \<le> n"
  shows "length (out_pages s') = n \<and> (\<forall>i<n. rebuilt_from lib doc i (out_pages s' ! i))"
  using assms
proof (induction "n - k" arbitrary: k s)
  case 0
  then have "k = n" by simp
  with 0 show ?case by simp
next
  case (Suc d)
  then have lt: "k < n" by simp
  then have unfold: "[k..<n] = k # [Suc k..<n]" by (rule upt_conv_Cons)
  obtain r1 s1 where step: "process_page lib self doc total_pages k s = (r1, s1)"
    by (cases "process_page lib self doc total_pages k s")
  from Suc.prems(1) unfold step obtain v where r1: "r1 = Inr v"
    by (cases r1) auto
  from Suc.prems(1) unfold step r1
  have rest: "for_each [Suc k..<n] (process_page lib self doc total_pages) s1 = (Inr u, s')"
    by simp
  from step r1 have "process_page lib self doc total_pages k s = (Inr v, s1)" by simp
  from process_page_pages [OF this Suc.prems(2) Suc.prems(3)]
  have inv: "length (out_pages s1) = Suc k" "\<forall>i<Suc k. rebuilt_from lib doc i (out_pages s1 ! i)"
    by simp_all
  from Suc.hyps(2) have d: "d = n - Suc k" by simp
  from lt have le: "Suc k \<le> n" by simp
  show ?case by (rule Suc.hyps(1) [OF d rest inv le])
qed

lemma pages_loop_unchanged_outside:
  assumes "for_each xs (process_page lib self doc total_pages) s = (r, s')"
  shows "unchanged_outside s s'"
proof (rule for_each_invariant [where P = "unchanged_outside s", OF _ _ assms])
  show "unchanged_outside s s" by (rule unchanged_outside_refl)
next
  fix x t q t'
  assume "unchanged_outside s t" and "process_page lib self doc total_pages x t = (q, t')"
  then show "unchanged_outside s t'"
    using process_page_unchanged_outside unchanged_outside_trans by blast
qed

lemma pages_loop_quality:
  assumes "for_each xs (process_page lib self doc total_pages) s = (r, s')"
    and "\<forall>c \<in> set (encoder_calls s). quality (snd c) = image_quality self"
  shows "\<forall>c \<in> set (encoder_calls s'). quality (snd c) = image_quality self"
proof (rule for_each_invariant
    [where P = "\<lambda>t. \<forall>c \<in> set (encoder_calls t). quality (snd c) = image_quality self",
      OF _ _ assms(1)])
  show "\<forall>c \<in> set (encoder_calls s). quality (snd c) = image_quality self" by (rule assms(2))
next
  fix x t q t'
  assume "\<forall>c \<in> set (encoder_calls t). quality (snd c) = image_quality self"
    and "process_page lib self doc total_pages x t = (q, t')"
  then show "\<forall>c \<in> set (encoder_calls t'). quality (snd c) = image_quality self"
    using process_page_quality by blast
qed

lemma save_and_report_cases:
  assumes "save_and_report lib self s = (r, s')"
  shows "(\<exists>e. doc_save lib (output_path self) (out_pages s) = Inl e \<and> r = Inl e \<and> s' = s) \<or>
         (\<exists>written e. doc_save lib (output_path self) (out_pages s) = Inr written \<and> r = Inl e \<and>
            s' = s\<lparr>files := (files s)(output_path self \<mapsto> written),
                   persisted := Some (out_pages s)\<rparr>) \<or>
         (\<exists>written original_size compressed_size.
            doc_save lib (output_path self) (out_pages s) = Inr written \<and>
            ((files s)(output_path self \<mapsto> written)) (input_path self) = Some original_size \<and>
            ((files s)(output_path self \<mapsto> written)) (output_path self) = Some compressed_size \<and>
            original_size \<noteq> 0 \<and> r = Inr True \<and>
            s' = s\<lparr>files := (files s)(output_path self \<mapsto> written),
                   persisted := Some (out_pages s),
                   logged := logged s @
                     [Info_complete (output_path self), Info_original_size original_size,
                      Info_compressed_size compressed_size,
                      Info_ratio ((1 - rat_of_nat compressed_size / rat_of_nat original_size) * 100)],
                   output_pdf := Closed, pdf_document := Closed\<rparr>)"
proof (cases "doc_save lib (output_path self) (out_pages s)")
  case (Inl e)
  with assms show ?thesis by (simp add: save_and_report_def)
next
  case (Inr written)
  let ?s1 = "s\<lparr>files := (files s)(output_path self \<mapsto> written), persisted := Some (out_pages s)\<rparr>"
  show ?thesis
  proof (cases "((files s)(output_path self \<mapsto> written)) (input_path self)")
    case None
    with assms Inr have "r = Inl (OSError (input_path self)) \<and> s' = ?s1"
      by (auto simp: save_and_report_def getsize_def Let_def)
    with Inr show ?thesis by blast
  next
    case (Some original_size)
    then have o: "((files s)(output_path self \<mapsto> written)) (input_path self) = Some original_size" .
    have c: "((files s)(output_path self \<mapsto> written)) (output_path self) = Some written"
      by simp
    show ?thesis
    proof (cases "original_size = 0")
      case True
      with assms Inr o c have "r = Inl ZeroDivisionError \<and> s' = ?s1"
        by (auto simp: save_and_report_def getsize_def Let_def)
      with Inr show ?thesis by blast
    next
      case nz: False
      with assms Inr o c have "r = Inr True \<and>
            s' = s\<lparr>files := (files s)(output_path self \<mapsto> written),
                   persisted := Some (out_pages s),
                   logged := logged s @
                     [Info_complete (output_path self), Info_original_size original_size,
                      Info_compressed_size written,
                      Info_ratio ((1 - rat_of_nat written / rat_of_nat original_size) * 100)],
                   output_pdf := Closed, pdf_document := Closed\<rparr>"
        by (auto simp: save_and_report_def getsize_def Let_def logger_def)
      with Inr o c nz show ?thesis by blast
    qed
  qed
qed

section \<open>Facts about compress_pdf\<close>

lemma compress_pdf_not_found:
  "fs (input_path self) = None \<Longrightarrow>
   compress_pdf lib self fs lg =
     (False, logger (Error_pdf (FileNotFoundError (input_path self))) (initial_state fs lg))"
  by (simp add: compress_pdf_def compress_pdf_try_def initial_state_def)

lemma compress_pdf_open_raises:
  "fs (input_path self) = Some n \<Longrightarrow> fitz_open lib (input_path self) = Inl e \<Longrightarrow>
   compress_pdf lib self fs lg =
     (False, logger (Error_pdf e) (logger (Info_starting (input_path self)) (initial_state fs lg)))"
  by (simp add: compress_pdf_def compress_pdf_try_def initial_state_def Let_def)

lemma compress_pdf_opened:
  "fs (input_path self) = Some n \<Longrightarrow> fitz_open lib (input_path self) = Inr doc \<Longrightarrow>
   compress_pdf lib self fs lg =
     (case for_each [0..<length (pages doc)] (process_page lib self doc (length (pages doc)))
             (opened_state self fs lg) of
        (Inl e, s4) \<Rightarrow> (False, logger (Error_pdf e) s4)
      | (Inr u, s4) \<Rightarrow>
         (case save_and_report lib self s4 of
            (Inl e, s5) \<Rightarrow> (False, logger (Error_pdf e) s5)
          | (Inr r, s5) \<Rightarrow> (r, s5)))"
  by (simp add: compress_pdf_def compress_pdf_try_def opened_state_def initial_state_def Let_def
      logger_def split: prod.splits sum.splits)

lemma opened_state_fields:
  "files (opened_state self fs lg) = fs"
  "logged (opened_state self fs lg) = lg @ [Info_starting (input_path self)]"
  "pdf_document (opened_state self fs lg) = Opened"
  "output_pdf (opened_state self fs lg) = Opened"
  "out_pages (opened_state self fs lg) = []"
  "encoder_calls (opened_state self fs lg) = []"
  "persisted (opened_state self fs lg) = None"
  by (simp_all add: opened_state_def initial_state_def logger_def)

text \<open>The five paths through \<open>compress_pdf\<close>.\<close>

lemma compress_pdf_cases:
  assumes "compress_pdf lib self fs lg = (r, s')"
  shows "(fs (input_path self) = None \<and> \<not> r \<and>
          s' = logger (Error_pdf (FileNotFoundError (input_path self))) (initial_state fs lg)) \<or>
         (\<exists>e. fitz_open lib (input_path self) = Inl e \<and> \<not> r \<and>
            s' = logger (Error_pdf e)
                   (logger (Info_starting (input_path self)) (initial_state fs lg))) \<or>
         (\<exists>doc e s4. fitz_open lib (input_path self) = Inr doc \<and>
            for_each [0..<length (pages doc)] (process_page lib self doc (length (pages doc)))
              (opened_state self fs lg) = (Inl e, s4) \<and>
            \<not> r \<and> s' = logger (Error_pdf e) s4) \<or>
         (\<exists>doc u s4 e s5. fitz_open lib (input_path self) = Inr doc \<and>
            for_each [0..<length (pages doc)] (process_page lib self doc (length (pages doc)))
              (opened_state self fs lg) = (Inr u, s4) \<and>
            save_and_report lib self s4 = (Inl e, s5) \<and> \<not> r \<and> s' = logger (Error_pdf e) s5) \<or>
         (\<exists>doc u s4. fitz_open lib (input_path self) = Inr doc \<and>
            for_each [0..<length (pages doc)] (process_page lib self doc (length (pages doc)))
              (opened_state self fs lg) = (Inr u, s4) \<and>
            save_and_report lib self s4 = (Inr r, s'))"
proof (cases "fs (input_path self)")
  case None
  from compress_pdf_not_found [where fs = fs and self = self, OF None, of lib lg] assms None show ?thesis by simp
next
  case (Some n)
  show ?thesis
  proof (cases "fitz_open lib (input_path self)")
    case (Inl e)
    from compress_pdf_open_raises [where fs = fs and self = self, OF Some Inl, of lg] assms Inl show ?thesis by simp
  next
    case (Inr doc)
    obtain r4 s4 where loop:
      "for_each [0..<length (pages doc)] (process_page lib self doc (length (pages doc)))
         (opened_state self fs lg) = (r4, s4)"
      by (cases "for_each [0..<length (pages doc)] (process_page lib self doc (length (pages doc)))
         (opened_state self fs lg)")
    show ?thesis
    proof (cases r4)
      case e: (Inl e)
      from compress_pdf_opened [where fs = fs and self = self and lg = lg, OF Some Inr] assms loop e
      have "\<not> r \<and> s' = logger (Error_pdf e) s4" by simp
      with Inr loop e show ?thesis by blast
    next
      case u: (Inr u)
      obtain r5 s5 where sv: "save_and_report lib self s4 = (r5, s5)"
        by (cases "save_and_report lib self s4")
      show ?thesis
      proof (cases r5)
        case e: (Inl e)
        from compress_pdf_opened [where fs = fs and self = self and lg = lg, OF Some Inr] assms loop u sv e
        have "\<not> r \<and> s' = logger (Error_pdf e) s5" by simp
        with Inr loop u sv e show ?thesis by blast
      next
        case b: (Inr b)
        from compress_pdf_opened [where fs = fs and self = self and lg = lg, OF Some Inr] assms loop u sv b
        have "r = b \<and> s' = s5" by simp
        with Inr loop u sv b show ?thesis by blast
      qed
    qed
  qed
qed

section \<open>A missing input file\<close>

text \<open>
  C5. When the input path does not exist, \<open>compress_pdf\<close> returns \<open>False\<close> with neither
  document opened, the storage is what it was (so no file is created at the output
  path), nothing is persisted, and the one log entry added is the error.
\<close>

theorem missing_input_fails:
  assumes "fs (input_path self) = None"
  shows "fst (compress_pdf lib self fs lg) = False \<and>
         pdf_document (snd (compress_pdf lib self fs lg)) = Unopened \<and>
         output_pdf (snd (compress_pdf lib self fs lg)) = Unopened \<and>
         files (snd (compress_pdf lib self fs lg)) = fs \<and>
         persisted (snd (compress_pdf lib self fs lg)) = None \<and>
         logged (snd (compress_pdf lib self fs lg)) =
           lg @ [Error_pdf (FileNotFoundError (input_path self))]"
  unfolding compress_pdf_not_found [where fs = fs and self = self, OF assms]
  by (simp add: logger_def initial_state_def)

theorem missing_input_fails_witness:
  "[''other.pdf'' \<mapsto> (7::nat)] (input_path sample_self) = None \<and>
   fst (compress_pdf (sample_lib photo_rect photo_bytes) sample_self [''other.pdf'' \<mapsto> 7] []) = False \<and>
   pdf_document (snd (compress_pdf (sample_lib photo_rect photo_bytes) sample_self
            [''other.pdf'' \<mapsto> 7] [])) = Unopened \<and>
   output_pdf (snd (compress_pdf (sample_lib photo_rect photo_bytes) sample_self
            [''other.pdf'' \<mapsto> 7] [])) = Unopened \<and>
   persisted (snd (compress_pdf (sample_lib photo_rect photo_bytes) sample_self
            [''other.pdf'' \<mapsto> 7] [])) = None \<and>
   files (snd (compress_pdf (sample_lib photo_rect photo_bytes) sample_self
            [''other.pdf'' \<mapsto> 7] [])) (output_path sample_self) = None"
proof -
  let ?fs = "[''other.pdf'' \<mapsto> (7::nat)]"
  let ?L = "sample_lib photo_rect photo_bytes"
  have ip: "input_path sample_self = ''in.pdf''" by (simp add: sample_self_def init_def)
  have op: "output_path sample_self = ''out.pdf''" by (simp add: sample_self_def init_def)
  have h: "?fs (input_path sample_self) = None" unfolding ip by simp
  note m = missing_input_fails [where fs = ?fs and self = sample_self, OF h, of ?L "[]"]
  from m have f: "files (snd (compress_pdf ?L sample_self ?fs [])) = ?fs" by blast
  have o: "files (snd (compress_pdf ?L sample_self ?fs [])) (output_path sample_self) = None"
    unfolding f op by simp
  from m h o show ?thesis by blast
qed

section \<open>The two outcomes\<close>

text \<open>
  C4. \<open>compress_pdf\<close> catches every exception raised in its body, so for every library,
  storage and log it returns: either \<open>True\<close>, and then the log ends with the report
  (completion notice, original size, compressed size, ratio), or \<open>False\<close>, and then the
  log ends with the error entry. There is no third outcome.
\<close>

theorem two_outcomes:
  "(fst (compress_pdf lib self fs lg) = True \<and>
    (\<exists>before original_size compressed_size.
       logged (snd (compress_pdf lib self fs lg)) =
         before @
           [Info_complete (output_path self), Info_original_size original_size,
            Info_compressed_size compressed_size,
            Info_ratio ((1 - rat_of_nat compressed_size / rat_of_nat original_size) * 100)])) \<or>
   (fst (compress_pdf lib self fs lg) = False \<and>
    (\<exists>before e. logged (snd (compress_pdf lib self fs lg)) = before @ [Error_pdf e]))"
proof -
  obtain r s' where run: "compress_pdf lib self fs lg = (r, s')"
    by (cases "compress_pdf lib self fs lg")
  from compress_pdf_cases [OF run]
  consider (failed) e s5 where "\<not> r" "s' = logger (Error_pdf e) s5"
    | (saved) s4 where "save_and_report lib self s4 = (Inr r, s')"
    by blast
  then show ?thesis
  proof cases
    case failed
    then have "logged s' = logged s5 @ [Error_pdf e]" by (simp add: logger_def)
    with failed run show ?thesis by auto
  next
    case saved
    from save_and_report_cases [OF saved]
    obtain original_size compressed_size where "r"
      "logged s' = logged s4 @
         [Info_complete (output_path self), Info_original_size original_size,
          Info_compressed_size compressed_size,
          Info_ratio ((1 - rat_of_nat compressed_size / rat_of_nat original_size) * 100)]"
      by auto
    with run show ?thesis by auto
  qed
qed

section \<open>Runs on the sample document\<close>

lemmas sample_defs = sample_lib_def sample_doc_def photo_page_def text_page_def sample_self_def
  init_def photo_def photo_bytes_def photo_item_def photo_rect_def letter_def fitz_rect_bool_def
lemmas run_defs = compress_pdf_def compress_pdf_try_def save_and_report_def process_page_def
  process_image_def compress_image_def compress_image_try_def convert_rgba_to_rgb_def
  save_arguments_def initial_state_def logger_def getsize_def draw_def new_page_def
  lower_def upper_def lower_char_def upper_char_def

lemma persisted_logger: "persisted (logger entry s) = persisted s"
  by (simp add: logger_def)

lemma sample_files_input: "sample_files ''in.pdf'' = Some 1000"
  by (simp add: sample_files_def)

text \<open>The sample document, compressed at quality 50.\<close>

lemma sample_run:
  "compress_pdf (sample_lib photo_rect photo_bytes) sample_self sample_files [] =
    (True,
     \<lparr>files = sample_files(''out.pdf'' \<mapsto> 800),
      logged = [Info_starting ''in.pdf'', Info_processing 1 2, Info_processing 2 2,
        Info_complete ''out.pdf'', Info_original_size 1000, Info_compressed_size 800, Info_ratio 20],
      pdf_document = Closed, output_pdf = Closed,
      out_pages =
        [\<lparr>width = 612, height = 792,
          ops = [Show_pdf_page letter 0, Insert_image photo_rect [6, 50]]\<rparr>,
         \<lparr>width = 612, height = 792, ops = [Show_pdf_page letter 1]\<rparr>],
      encoder_calls = [(photo, \<lparr>format = ''JPEG'', quality = 50, optimize = Some True\<rparr>)],
      persisted = Some
        [\<lparr>width = 612, height = 792,
          ops = [Show_pdf_page letter 0, Insert_image photo_rect [6, 50]]\<rparr>,
         \<lparr>width = 612, height = 792, ops = [Show_pdf_page letter 1]\<rparr>]\<rparr>)"
  by (simp add: sample_defs run_defs sample_files_def upt_rec Let_def char_of_def)

text \<open>The same document when the bytes of its image cannot be decoded.\<close>

lemma corrupt_image_run:
  "compress_pdf (sample_lib photo_rect [0, 1, 2]) sample_self sample_files [] =
    (True,
     \<lparr>files = sample_files(''out.pdf'' \<mapsto> 800),
      logged = [Info_starting ''in.pdf'', Info_processing 1 2,
        Error_image (LibraryError ''cannot identify image file''), Info_processing 2 2,
        Info_complete ''out.pdf'', Info_original_size 1000, Info_compressed_size 800, Info_ratio 20],
      pdf_document = Closed, output_pdf = Closed,
      out_pages =
        [\<lparr>width = 612, height = 792, ops = [Show_pdf_page letter 0]\<rparr>,
         \<lparr>width = 612, height = 792, ops = [Show_pdf_page letter 1]\<rparr>],
      encoder_calls = [],
      persisted = Some
        [\<lparr>width = 612, height = 792, ops = [Show_pdf_page letter 0]\<rparr>,
         \<lparr>width = 612, height = 792, ops = [Show_pdf_page letter 1]\<rparr>]\<rparr>)"
  by (simp add: sample_defs run_defs sample_files_def upt_rec Let_def char_of_def
      logo_bytes_def palette_bytes_def)

text \<open>The document with the RGBA image, when the pixels of that image cannot be read.\<close>

lemma truncated_run:
  "compress_pdf truncated_lib sample_self sample_files [] =
    (True,
     \<lparr>files = sample_files(''out.pdf'' \<mapsto> 800),
      logged = [Info_starting ''in.pdf'', Info_processing 1 2,
        Error_image (LibraryError ''image file is truncated''), Info_processing 2 2,
        Info_complete ''out.pdf'', Info_original_size 1000, Info_compressed_size 800, Info_ratio 20],
      pdf_document = Closed, output_pdf = Closed,
      out_pages =
        [\<lparr>width = 612, height = 792, ops = [Show_pdf_page letter 0]\<rparr>,
         \<lparr>width = 612, height = 792, ops = [Show_pdf_page letter 1]\<rparr>],
      encoder_calls = [],
      persisted = Some
        [\<lparr>width = 612, height = 792, ops = [Show_pdf_page letter 0]\<rparr>,
         \<lparr>width = 612, height = 792, ops = [Show_pdf_page letter 1]\<rparr>]\<rparr>)"
  by (simp add: truncated_lib_def sample_defs run_defs sample_files_def upt_rec Let_def char_of_def
      logo_def logo_bytes_def logo_alpha_def palette_bytes_def)

text \<open>The same document when the output path cannot be written.\<close>

lemma readonly_run:
  "compress_pdf (sample_lib photo_rect photo_bytes) (init ''in.pdf'' ''/readonly/out.pdf'' (Some 50))
     sample_files [] =
    (False,
     \<lparr>files = sample_files,
      logged = [Info_starting ''in.pdf'', Info_processing 1 2, Info_processing 2 2,
        Error_pdf (OSError ''/readonly/out.pdf'')],
      pdf_document = Opened, output_pdf = Opened,
      out_pages =
        [\<lparr>width = 612, height = 792,
          ops = [Show_pdf_page letter 0, Insert_image photo_rect [6, 50]]\<rparr>,
         \<lparr>width = 612, height = 792, ops = [Show_pdf_page letter 1]\<rparr>],
      encoder_calls = [(photo, \<lparr>format = ''JPEG'', quality = 50, optimize = Some True\<rparr>)],
      persisted = None\<rparr>)"
  by (simp add: sample_defs run_defs sample_files_input upt_rec Let_def char_of_def)

text \<open>The same document when its image is placed on a rectangle of width zero.\<close>

lemma zero_area_run:
  "compress_pdf (sample_lib \<lparr>x0 = 10, y0 = 10, x1 = 10, y1 = 20\<rparr> photo_bytes) sample_self
     sample_files [] =
    (False,
     \<lparr>files = sample_files,
      logged = [Info_starting ''in.pdf'', Info_processing 1 2,
        Error_pdf (LibraryError ''rect must be finite and not empty'')],
      pdf_document = Opened, output_pdf = Opened,
      out_pages = [\<lparr>width = 612, height = 792, ops = [Show_pdf_page letter 0]\<rparr>],
      encoder_calls = [(photo, \<lparr>format = ''JPEG'', quality = 50, optimize = Some True\<rparr>)],
      persisted = None\<rparr>)"
  by (simp add: sample_defs run_defs sample_files_input upt_rec Let_def char_of_def)

section \<open>The report\<close>

lemma compress_pdf_success:
  assumes "fst (compress_pdf lib self fs lg) = True"
  shows "\<exists>doc u s4. fitz_open lib (input_path self) = Inr doc \<and>
           for_each [0..<length (pages doc)] (process_page lib self doc (length (pages doc)))
             (opened_state self fs lg) = (Inr u, s4) \<and>
           save_and_report lib self s4 = (Inr True, snd (compress_pdf lib self fs lg))"
proof -
  obtain r s' where run: "compress_pdf lib self fs lg = (r, s')"
    by (cases "compress_pdf lib self fs lg")
  with assms have r: "r" by simp
  from compress_pdf_cases [OF run] r run show ?thesis by auto
qed

text \<open>
  C8. When \<open>compress_pdf\<close> returns \<open>True\<close>, the output document was saved, the storage
  is the initial one with the saved file at the output path, and the ratio in the
  report is \<open>(1 - compressed_size / original_size) * 100\<close> for the sizes that storage
  holds at the input path and at the output path; the original size is not zero.
  The quotient is the exact one: Python computes it in binary floating point, and the
  rounding of that arithmetic is not part of the model.
\<close>

theorem ratio_reported:
  assumes "fst (compress_pdf lib self fs lg) = True"
  shows "\<exists>pgs written original_size compressed_size before.
           persisted (snd (compress_pdf lib self fs lg)) = Some pgs \<and>
           doc_save lib (output_path self) pgs = Inr written \<and>
           files (snd (compress_pdf lib self fs lg)) = fs(output_path self \<mapsto> written) \<and>
           files (snd (compress_pdf lib self fs lg)) (input_path self) = Some original_size \<and>
           files (snd (compress_pdf lib self fs lg)) (output_path self) = Some compressed_size \<and>
           original_size \<noteq> 0 \<and>
           logged (snd (compress_pdf lib self fs lg)) =
             before @
               [Info_complete (output_path self), Info_original_size original_size,
                Info_compressed_size compressed_size,
                Info_ratio ((1 - rat_of_nat compressed_size / rat_of_nat original_size) * 100)]"
proof -
  from compress_pdf_success [OF assms] obtain doc u s4 where
    loop: "for_each [0..<length (pages doc)] (process_page lib self doc (length (pages doc)))
             (opened_state self fs lg) = (Inr u, s4)"
    and sv: "save_and_report lib self s4 = (Inr True, snd (compress_pdf lib self fs lg))"
    by blast
  from pages_loop_unchanged_outside [OF loop] have f4: "files s4 = fs"
    by (simp add: unchanged_outside_def opened_state_fields)
  from save_and_report_cases [OF sv] obtain written original_size compressed_size where
    d: "doc_save lib (output_path self) (out_pages s4) = Inr written"
    and o: "((files s4)(output_path self \<mapsto> written)) (input_path self) = Some original_size"
    and c: "((files s4)(output_path self \<mapsto> written)) (output_path self) = Some compressed_size"
    and nz: "original_size \<noteq> 0"
    and s': "snd (compress_pdf lib self fs lg) =
       s4\<lparr>files := (files s4)(output_path self \<mapsto> written),
          persisted := Some (out_pages s4),
          logged := logged s4 @
            [Info_complete (output_path self), Info_original_size original_size,
             Info_compressed_size compressed_size,
             Info_ratio ((1 - rat_of_nat compressed_size / rat_of_nat original_size) * 100)],
          output_pdf := Closed, pdf_document := Closed\<rparr>"
    by auto
  have "persisted (snd (compress_pdf lib self fs lg)) = Some (out_pages s4)"
    unfolding s' by simp
  moreover have "files (snd (compress_pdf lib self fs lg)) = fs(output_path self \<mapsto> written)"
    unfolding s' by (simp add: f4)
  moreover have "files (snd (compress_pdf lib self fs lg)) (input_path self) = Some original_size"
    unfolding s' using o by simp
  moreover have "files (snd (compress_pdf lib self fs lg)) (output_path self) = Some compressed_size"
    unfolding s' using c by simp
  moreover have "logged (snd (compress_pdf lib self fs lg)) =
             logged s4 @
               [Info_complete (output_path self), Info_original_size original_size,
                Info_compressed_size compressed_size,
                Info_ratio ((1 - rat_of_nat compressed_size / rat_of_nat original_size) * 100)]"
    unfolding s' by simp
  ultimately show ?thesis using d nz by blast
qed

theorem ratio_reported_witness:
  "fst (compress_pdf (sample_lib photo_rect photo_bytes) sample_self sample_files []) = True \<and>
   files (snd (compress_pdf (sample_lib photo_rect photo_bytes) sample_self sample_files []))
     (input_path sample_self) = Some 1000 \<and>
   files (snd (compress_pdf (sample_lib photo_rect photo_bytes) sample_self sample_files []))
     (output_path sample_self) = Some 800 \<and>
   (\<exists>before. logged (snd (compress_pdf (sample_lib photo_rect photo_bytes) sample_self
        sample_files [])) =
     before @ [Info_complete (output_path sample_self), Info_original_size 1000,
       Info_compressed_size 800, Info_ratio ((1 - rat_of_nat 800 / rat_of_nat 1000) * 100)]) \<and>
   (1 - rat_of_nat 800 / rat_of_nat 1000) * 100 = (20 :: rat)"
proof -
  let ?run = "compress_pdf (sample_lib photo_rect photo_bytes) sample_self sample_files []"
  have h: "fst ?run = True" by (simp add: sample_run)
  have i: "files (snd ?run) (input_path sample_self) = Some 1000"
    unfolding sample_run by (simp add: sample_self_def init_def sample_files_def)
  have c: "files (snd ?run) (output_path sample_self) = Some 800"
    unfolding sample_run by (simp add: sample_self_def init_def)
  from ratio_reported [OF h] obtain original_size compressed_size before where
    "files (snd ?run) (input_path sample_self) = Some original_size"
    "files (snd ?run) (output_path sample_self) = Some compressed_size"
    "logged (snd ?run) =
       before @ [Info_complete (output_path sample_self), Info_original_size original_size,
         Info_compressed_size compressed_size,
         Info_ratio ((1 - rat_of_nat compressed_size / rat_of_nat original_size) * 100)]"
    by blast
  with i c have "\<exists>before. logged (snd ?run) =
       before @ [Info_complete (output_path sample_self), Info_original_size 1000,
         Info_compressed_size 800, Info_ratio ((1 - rat_of_nat 800 / rat_of_nat 1000) * 100)]"
    by auto
  moreover have "(1 - rat_of_nat 800 / rat_of_nat 1000) * 100 = (20 :: rat)" by simp
  ultimately show ?thesis using h i c by blast
qed

section \<open>Pages of the output document\<close>

text \<open>
  C1. Whenever a run persists an output document, that document has as many pages as
  the source; its page \<open>i\<close> was created with the width and the height of page \<open>i\<close> of the
  source, and the first thing drawn on it is the copy of that source page, so the
  pages are in the order of the source.
\<close>

theorem pages_preserved:
  assumes "fitz_open lib (input_path self) = Inr doc"
    and "persisted (snd (compress_pdf lib self fs lg)) = Some pgs"
  shows "length pgs = length (pages doc) \<and>
         (\<forall>i<length (pages doc).
            width (pgs ! i) = rect_width lib (page_rect (pages doc ! i)) \<and>
            height (pgs ! i) = rect_height lib (page_rect (pages doc ! i)) \<and>
            ops (pgs ! i) \<noteq> [] \<and>
            hd (ops (pgs ! i)) = Show_pdf_page (page_rect (pages doc ! i)) i)"
proof -
  obtain r s' where run: "compress_pdf lib self fs lg = (r, s')"
    by (cases "compress_pdf lib self fs lg")
  with assms(2) have p: "persisted s' = Some pgs" by simp
  have none_if_loop_fails: "persisted s4 = None"
    if "for_each [0..<length (pages d)] (process_page lib self d (length (pages d)))
          (opened_state self fs lg) = (q, s4)" for d q s4
    using pages_loop_unchanged_outside [OF that]
    by (simp add: unchanged_outside_def opened_state_fields)
  from compress_pdf_cases [OF run] p assms(1)
  obtain u s4 q s5 where
    loop: "for_each [0..<length (pages doc)] (process_page lib self doc (length (pages doc)))
             (opened_state self fs lg) = (Inr u, s4)"
    and sv: "save_and_report lib self s4 = (q, s5)"
    and p5: "persisted s5 = Some pgs"
    by (auto simp: persisted_logger initial_state_def dest: none_if_loop_fails)
  from none_if_loop_fails [OF loop] have p4: "persisted s4 = None" .
  from save_and_report_cases [OF sv] p5 p4 have pgs: "pgs = out_pages s4" by auto
  have "length (out_pages s4) = length (pages doc) \<and>
        (\<forall>i<length (pages doc). rebuilt_from lib doc i (out_pages s4 ! i))"
    by (rule pages_loop [OF loop]) (simp_all add: opened_state_fields)
  then show ?thesis unfolding pgs rebuilt_from_def by simp
qed


theorem pages_preserved_witness:
  "fitz_open (sample_lib photo_rect photo_bytes) (input_path sample_self) =
     Inr (sample_doc photo_rect photo_bytes) \<and>
   persisted (snd (compress_pdf (sample_lib photo_rect photo_bytes) sample_self sample_files [])) =
     Some [\<lparr>width = 612, height = 792,
             ops = [Show_pdf_page letter 0, Insert_image photo_rect [6, 50]]\<rparr>,
           \<lparr>width = 612, height = 792, ops = [Show_pdf_page letter 1]\<rparr>] \<and>
   length (pages (sample_doc photo_rect photo_bytes)) = 2 \<and>
   rect_width (sample_lib photo_rect photo_bytes)
     (page_rect (pages (sample_doc photo_rect photo_bytes) ! 0)) = 612 \<and>
   rect_height (sample_lib photo_rect photo_bytes)
     (page_rect (pages (sample_doc photo_rect photo_bytes) ! 1)) = 792 \<and>
   Show_pdf_page (page_rect (pages (sample_doc photo_rect photo_bytes) ! 1)) 1 =
     Show_pdf_page letter 1"
proof -
  let ?L = "sample_lib photo_rect photo_bytes"
  let ?doc = "sample_doc photo_rect photo_bytes"
  let ?pgs = "[\<lparr>width = 612, height = 792,
             ops = [Show_pdf_page letter 0, Insert_image photo_rect [6, 50]]\<rparr>,
           \<lparr>width = 612, height = 792, ops = [Show_pdf_page letter 1]\<rparr>]"
  have o: "fitz_open ?L (input_path sample_self) = Inr ?doc"
    by (simp add: sample_lib_def sample_self_def init_def)
  have p: "persisted (snd (compress_pdf ?L sample_self sample_files [])) = Some ?pgs"
    unfolding sample_run by simp
  have n: "length (pages ?doc) = 2" by (simp add: sample_doc_def)
  note m = pages_preserved [OF o p]
  note a = m [THEN conjunct2, rule_format]
  have lt0: "0 < length (pages ?doc)" and lt1: "1 < length (pages ?doc)"
    unfolding n by simp_all
  have w: "width (?pgs ! 0) = rect_width ?L (page_rect (pages ?doc ! 0))"
    by (rule a [OF lt0, THEN conjunct1])
  have h: "height (?pgs ! 1) = rect_height ?L (page_rect (pages ?doc ! 1))"
    by (rule a [OF lt1, THEN conjunct2, THEN conjunct1])
  have s: "hd (ops (?pgs ! 1)) = Show_pdf_page (page_rect (pages ?doc ! 1)) 1"
    by (rule a [OF lt1, THEN conjunct2, THEN conjunct2, THEN conjunct2])
  have ew: "width (?pgs ! 0) = 612" by simp
  have eh: "height (?pgs ! 1) = 792" by simp
  have es: "hd (ops (?pgs ! 1)) = Show_pdf_page letter 1" by simp
  have w': "rect_width ?L (page_rect (pages ?doc ! 0)) = 612"
    by (rule trans [OF w [symmetric] ew])
  have h': "rect_height ?L (page_rect (pages ?doc ! 1)) = 792"
    by (rule trans [OF h [symmetric] eh])
  have s': "Show_pdf_page (page_rect (pages ?doc ! 1)) 1 = Show_pdf_page letter 1"
    by (rule trans [OF s [symmetric] es])
  from o p n w' h' s' show ?thesis by blast
qed

section \<open>The quality setting\<close>

text \<open>The sample document, compressed at quality 500 with the strict encoder.\<close>

lemma out_of_range_run:
  "compress_pdf strict_lib (init ''in.pdf'' ''out.pdf'' (Some 500)) sample_files [] =
    (True,
     \<lparr>files = sample_files(''out.pdf'' \<mapsto> 800),
      logged = [Info_starting ''in.pdf'', Info_processing 1 2,
        Error_image (LibraryError ''invalid quality''), Info_processing 2 2,
        Info_complete ''out.pdf'', Info_original_size 1000, Info_compressed_size 800, Info_ratio 20],
      pdf_document = Closed, output_pdf = Closed,
      out_pages =
        [\<lparr>width = 612, height = 792, ops = [Show_pdf_page letter 0]\<rparr>,
         \<lparr>width = 612, height = 792, ops = [Show_pdf_page letter 1]\<rparr>],
      encoder_calls = [(photo, \<lparr>format = ''JPEG'', quality = 500, optimize = Some True\<rparr>)],
      persisted = Some
        [\<lparr>width = 612, height = 792, ops = [Show_pdf_page letter 0]\<rparr>,
         \<lparr>width = 612, height = 792, ops = [Show_pdf_page letter 1]\<rparr>]\<rparr>)"
  by (simp add: strict_lib_def sample_defs run_defs sample_files_def upt_rec Let_def char_of_def)

lemma encoder_calls_logger: "encoder_calls (logger entry s) = encoder_calls s"
  by (simp add: logger_def)

lemma save_and_report_encoder_calls:
  assumes "save_and_report lib self s = (r, s')"
  shows "encoder_calls s' = encoder_calls s"
  using save_and_report_cases [OF assms] by auto

lemma compress_pdf_quality:
  "\<forall>c \<in> set (encoder_calls (snd (compress_pdf lib self fs lg))). quality (snd c) = image_quality self"
proof -
  obtain r s' where run: "compress_pdf lib self fs lg = (r, s')"
    by (cases "compress_pdf lib self fs lg")
  have loop_ok: "\<forall>c \<in> set (encoder_calls s4). quality (snd c) = image_quality self"
    if "for_each [0..<length (pages d)] (process_page lib self d (length (pages d)))
          (opened_state self fs lg) = (q, s4)" for d q s4
    by (rule pages_loop_quality [OF that]) (simp add: opened_state_fields)
  from compress_pdf_cases [OF run]
  have "\<forall>c \<in> set (encoder_calls s'). quality (snd c) = image_quality self"
    by (auto simp: encoder_calls_logger initial_state_def
        dest!: loop_ok save_and_report_encoder_calls)
  with run show ?thesis by simp
qed

text \<open>
  C10. The constructor stores the quality it is given, whatever integer it is; every
  encoder call of a run of \<open>compress_pdf\<close> carries exactly that quality; and when the
  encoder rejects a call, \<open>compress_image\<close> logs the error and returns \<open>None\<close>, so the
  rejection is a failure of that image alone.
\<close>

theorem quality_passed_verbatim:
  "image_quality (init inp outp (Some q)) = q \<and>
   (\<forall>c \<in> set (encoder_calls (snd (compress_pdf lib (init inp outp (Some q)) fs lg))).
      quality (snd c) = q) \<and>
   (\<forall>image_bytes image_ext s im im' e.
      Image_open lib image_bytes = Inr im \<and> convert_rgba_to_rgb lib im = Inr im' \<and>
      Image_save lib im' (save_arguments image_ext q) = Inl e \<longrightarrow>
      quality (save_arguments image_ext q) = q \<and>
      compress_image lib (init inp outp (Some q)) image_bytes image_ext s =
        (None,
         logger (Error_image e)
           (s\<lparr>encoder_calls := encoder_calls s @ [(im', save_arguments image_ext q)]\<rparr>)))"
proof (intro conjI allI impI)
  show q: "image_quality (init inp outp (Some q)) = q" by (simp add: init_def)
  show "\<forall>c \<in> set (encoder_calls (snd (compress_pdf lib (init inp outp (Some q)) fs lg))).
          quality (snd c) = q"
    using compress_pdf_quality [of lib "init inp outp (Some q)" fs lg] unfolding q .
  fix image_bytes image_ext s im im' e
  assume h: "Image_open lib image_bytes = Inr im \<and> convert_rgba_to_rgb lib im = Inr im' \<and>
             Image_save lib im' (save_arguments image_ext q) = Inl e"
  show "quality (save_arguments image_ext q) = q" by (rule quality_save_arguments)
  from h have o: "Image_open lib image_bytes = Inr im"
    and c: "convert_rgba_to_rgb lib im = Inr im'"
    and e: "Image_save lib im' (save_arguments image_ext q) = Inl e"
    by simp_all
  show "compress_image lib (init inp outp (Some q)) image_bytes image_ext s =
        (None,
         logger (Error_image e)
           (s\<lparr>encoder_calls := encoder_calls s @ [(im', save_arguments image_ext q)]\<rparr>))"
    unfolding compress_image_encode [OF o c] q by (simp add: e)
qed

theorem quality_passed_verbatim_witness:
  "image_quality (init ''in.pdf'' ''out.pdf'' (Some 500)) = 500 \<and>
   set (encoder_calls (snd (compress_pdf strict_lib (init ''in.pdf'' ''out.pdf'' (Some 500))
          sample_files []))) =
     {(photo, \<lparr>format = ''JPEG'', quality = 500, optimize = Some True\<rparr>)} \<and>
   quality (snd (photo, \<lparr>format = ''JPEG'', quality = 500, optimize = Some True\<rparr>)) = 500 \<and>
   Image_open strict_lib photo_bytes = Inr photo \<and>
   convert_rgba_to_rgb strict_lib photo = Inr photo \<and>
   Image_save strict_lib photo (save_arguments ''jpeg'' 500) = Inl (LibraryError ''invalid quality'') \<and>
   compress_image strict_lib (init ''in.pdf'' ''out.pdf'' (Some 500)) photo_bytes ''jpeg''
       (initial_state sample_files []) =
     (None,
      logger (Error_image (LibraryError ''invalid quality''))
        ((initial_state sample_files [])
           \<lparr>encoder_calls := encoder_calls (initial_state sample_files []) @
              [(photo, save_arguments ''jpeg'' 500)]\<rparr>)) \<and>
   fst (compress_pdf strict_lib (init ''in.pdf'' ''out.pdf'' (Some 500)) sample_files []) = True"
proof -
  let ?self = "init ''in.pdf'' ''out.pdf'' (Some 500)"
  let ?call = "(photo, \<lparr>format = ''JPEG'', quality = 500, optimize = Some True\<rparr>)"
  note m = quality_passed_verbatim [of "''in.pdf''" "''out.pdf''" 500 strict_lib sample_files "[]"]
  have calls: "set (encoder_calls (snd (compress_pdf strict_lib ?self sample_files []))) = {?call}"
    unfolding out_of_range_run by simp
  have inc: "?call \<in> set (encoder_calls (snd (compress_pdf strict_lib ?self sample_files [])))"
    unfolding calls by simp
  have o: "Image_open strict_lib photo_bytes = Inr photo" by code_simp
  have c: "convert_rgba_to_rgb strict_lib photo = Inr photo" by code_simp
  have e: "Image_save strict_lib photo (save_arguments ''jpeg'' 500) =
             Inl (LibraryError ''invalid quality'')" by code_simp
  from m have a: "image_quality ?self = 500" by (rule conjunct1)
  from m inc have b: "quality (snd ?call) = 500" by blast
  from m o c e have d: "compress_image strict_lib ?self photo_bytes ''jpeg''
       (initial_state sample_files []) =
     (None,
      logger (Error_image (LibraryError ''invalid quality''))
        ((initial_state sample_files [])
           \<lparr>encoder_calls := encoder_calls (initial_state sample_files []) @
              [(photo, save_arguments ''jpeg'' 500)]\<rparr>))"
    by blast
  have t: "fst (compress_pdf strict_lib ?self sample_files []) = True"
    unfolding out_of_range_run by simp
  from a calls b o c e d t show ?thesis by blast
qed

section \<open>An image that cannot be decoded or encoded\<close>

text \<open>
  C3. When the bytes of an extracted image cannot be decoded (\<^verbatim>\<open>Image.open\<close> raises,
  or the pixels cannot be read when an RGBA or LA image is split and pasted), or the
  encoder rejects the decoded image, \<open>compress_image\<close> returns \<open>None\<close> and the log
  gains the error;
  \<open>process_image\<close> then raises nothing and inserts nothing, so the output pages are
  what they were (the copy of the source page is already drawn), the storage and the
  handles are untouched, and the loop goes on with the remaining images from that
  state. No exception of that image reaches the handler of \<open>compress_pdf\<close>.
\<close>

theorem image_error_absorbed:
  assumes "extract_image doc (xref img) = Inr (Some base)"
    and "Image_open lib (bi_image base) = Inl e \<or>
         (\<exists>im. Image_open lib (bi_image base) = Inr im \<and>
            convert_rgba_to_rgb lib im = Inl e) \<or>
         (\<exists>im im'. Image_open lib (bi_image base) = Inr im \<and>
            convert_rgba_to_rgb lib im = Inr im' \<and>
            Image_save lib im' (save_arguments (bi_ext base) (image_quality self)) = Inl e)"
  shows "\<exists>s1. compress_image lib self (bi_image base) (bi_ext base) s = (None, s1) \<and>
           logged s1 = logged s @ [Error_image e] \<and>
           out_pages s1 = out_pages s \<and>
           unchanged_outside s s1 \<and>
           process_image lib self doc page output_page img s = (Inr (), s1) \<and>
           for_each (img # rest) (process_image lib self doc page output_page) s =
             for_each rest (process_image lib self doc page output_page) s1"
proof -
  from assms(2) consider
    (decode) "Image_open lib (bi_image base) = Inl e"
    | (convert) im where "Image_open lib (bi_image base) = Inr im"
        "convert_rgba_to_rgb lib im = Inl e"
    | (encode) im im' where "Image_open lib (bi_image base) = Inr im"
        "convert_rgba_to_rgb lib im = Inr im'"
        "Image_save lib im' (save_arguments (bi_ext base) (image_quality self)) = Inl e"
    by blast
  then obtain s1 where
    ci: "compress_image lib self (bi_image base) (bi_ext base) s = (None, s1)"
    and lg: "logged s1 = logged s @ [Error_image e]"
  proof cases
    case decode
    from compress_image_decode_error [OF decode, of self "bi_ext base" s] that
    show thesis by (simp add: logger_def)
  next
    case (convert im)
    from compress_image_convert_error [OF convert, of self "bi_ext base" s] that
    show thesis by (simp add: logger_def)
  next
    case (encode im im')
    from compress_image_encode [OF encode(1) encode(2), of self "bi_ext base" s] encode(3) that
    show thesis by (simp add: logger_def)
  qed
  from compress_image_frame [OF ci] have op: "out_pages s1 = out_pages s" by simp
  from unchanged_outside_compress_image [OF ci] have un: "unchanged_outside s s1" .
  from process_image_not_compressed [OF assms(1) ci]
  have pi: "process_image lib self doc page output_page img s = (Inr (), s1)" .
  then have "for_each (img # rest) (process_image lib self doc page output_page) s =
             for_each rest (process_image lib self doc page output_page) s1"
    by simp
  with ci lg op un pi show ?thesis by blast
qed


theorem image_error_absorbed_witness:
  "extract_image (sample_doc photo_rect [0, 1, 2]) (xref photo_item) =
     Inr (Some \<lparr>bi_image = [0, 1, 2], bi_ext = ''jpeg''\<rparr>) \<and>
   Image_open (sample_lib photo_rect [0, 1, 2]) [0, 1, 2] =
     Inl (LibraryError ''cannot identify image file'') \<and>
   (\<exists>s1. compress_image (sample_lib photo_rect [0, 1, 2]) sample_self [0, 1, 2] ''jpeg''
            (opened_state sample_self sample_files []) = (None, s1) \<and>
         logged s1 = logged (opened_state sample_self sample_files []) @
           [Error_image (LibraryError ''cannot identify image file'')] \<and>
         out_pages s1 = out_pages (opened_state sample_self sample_files []) \<and>
         process_image (sample_lib photo_rect [0, 1, 2]) sample_self
           (sample_doc photo_rect [0, 1, 2]) (photo_page photo_rect) 0 photo_item
           (opened_state sample_self sample_files []) = (Inr (), s1)) \<and>
   fst (compress_pdf (sample_lib photo_rect [0, 1, 2]) sample_self sample_files []) = True \<and>
   out_pages (snd (compress_pdf (sample_lib photo_rect [0, 1, 2]) sample_self sample_files [])) =
     [\<lparr>width = 612, height = 792, ops = [Show_pdf_page letter 0]\<rparr>,
      \<lparr>width = 612, height = 792, ops = [Show_pdf_page letter 1]\<rparr>] \<and>
   extract_image (sample_doc photo_rect logo_bytes) (xref photo_item) =
     Inr (Some \<lparr>bi_image = logo_bytes, bi_ext = ''jpeg''\<rparr>) \<and>
   Image_open truncated_lib logo_bytes = Inr logo \<and>
   convert_rgba_to_rgb truncated_lib logo = Inl (LibraryError ''image file is truncated'') \<and>
   (\<exists>s1. compress_image truncated_lib sample_self logo_bytes ''jpeg''
            (opened_state sample_self sample_files []) = (None, s1) \<and>
         logged s1 = logged (opened_state sample_self sample_files []) @
           [Error_image (LibraryError ''image file is truncated'')] \<and>
         out_pages s1 = out_pages (opened_state sample_self sample_files []) \<and>
         process_image truncated_lib sample_self
           (sample_doc photo_rect logo_bytes) (photo_page photo_rect) 0 photo_item
           (opened_state sample_self sample_files []) = (Inr (), s1)) \<and>
   fst (compress_pdf truncated_lib sample_self sample_files []) = True \<and>
   out_pages (snd (compress_pdf truncated_lib sample_self sample_files [])) =
     [\<lparr>width = 612, height = 792, ops = [Show_pdf_page letter 0]\<rparr>,
      \<lparr>width = 612, height = 792, ops = [Show_pdf_page letter 1]\<rparr>]"
proof -
  let ?L = "sample_lib photo_rect [0, 1, 2]"
  let ?doc = "sample_doc photo_rect [0, 1, 2]"
  let ?base = "\<lparr>bi_image = [0, 1, 2], bi_ext = ''jpeg''\<rparr>"
  let ?e = "LibraryError ''cannot identify image file''"
  let ?s = "opened_state sample_self sample_files []"
  have x: "extract_image ?doc (xref photo_item) = Inr (Some ?base)"
    by (simp add: sample_doc_def photo_item_def)
  have o: "Image_open ?L [0, 1, 2] = Inl ?e" by code_simp
  then have h: "Image_open ?L (bi_image ?base) = Inl ?e \<or>
         (\<exists>im. Image_open ?L (bi_image ?base) = Inr im \<and> convert_rgba_to_rgb ?L im = Inl ?e) \<or>
         (\<exists>im im'. Image_open ?L (bi_image ?base) = Inr im \<and>
            convert_rgba_to_rgb ?L im = Inr im' \<and>
            Image_save ?L im' (save_arguments (bi_ext ?base) (image_quality sample_self)) = Inl ?e)"
    by simp
  from image_error_absorbed [OF x h, of ?s "photo_page photo_rect" 0 "[]"]
  have a: "\<exists>s1. compress_image ?L sample_self [0, 1, 2] ''jpeg'' ?s = (None, s1) \<and>
         logged s1 = logged ?s @ [Error_image ?e] \<and>
         out_pages s1 = out_pages ?s \<and>
         process_image ?L sample_self ?doc (photo_page photo_rect) 0 photo_item ?s = (Inr (), s1)"
    by auto
  have t: "fst (compress_pdf ?L sample_self sample_files []) = True"
    unfolding corrupt_image_run by simp
  have p: "out_pages (snd (compress_pdf ?L sample_self sample_files [])) =
     [\<lparr>width = 612, height = 792, ops = [Show_pdf_page letter 0]\<rparr>,
      \<lparr>width = 612, height = 792, ops = [Show_pdf_page letter 1]\<rparr>]"
    unfolding corrupt_image_run by simp
  let ?doc' = "sample_doc photo_rect logo_bytes"
  let ?base' = "\<lparr>bi_image = logo_bytes, bi_ext = ''jpeg''\<rparr>"
  let ?e' = "LibraryError ''image file is truncated''"
  have x': "extract_image ?doc' (xref photo_item) = Inr (Some ?base')"
    by (simp add: sample_doc_def photo_item_def)
  have o': "Image_open truncated_lib logo_bytes = Inr logo" by code_simp
  have c': "convert_rgba_to_rgb truncated_lib logo = Inl ?e'" by code_simp
  from o' c' have h': "Image_open truncated_lib (bi_image ?base') = Inl ?e' \<or>
         (\<exists>im. Image_open truncated_lib (bi_image ?base') = Inr im \<and>
            convert_rgba_to_rgb truncated_lib im = Inl ?e') \<or>
         (\<exists>im im'. Image_open truncated_lib (bi_image ?base') = Inr im \<and>
            convert_rgba_to_rgb truncated_lib im = Inr im' \<and>
            Image_save truncated_lib im'
              (save_arguments (bi_ext ?base') (image_quality sample_self)) = Inl ?e')"
    by simp
  from image_error_absorbed [OF x' h', of ?s "photo_page photo_rect" 0 "[]"]
  have a': "\<exists>s1. compress_image truncated_lib sample_self logo_bytes ''jpeg'' ?s = (None, s1) \<and>
         logged s1 = logged ?s @ [Error_image ?e'] \<and>
         out_pages s1 = out_pages ?s \<and>
         process_image truncated_lib sample_self ?doc' (photo_page photo_rect) 0 photo_item ?s =
           (Inr (), s1)"
    by auto
  have t': "fst (compress_pdf truncated_lib sample_self sample_files []) = True"
    unfolding truncated_run by simp
  have p': "out_pages (snd (compress_pdf truncated_lib sample_self sample_files [])) =
     [\<lparr>width = 612, height = 792, ops = [Show_pdf_page letter 0]\<rparr>,
      \<lparr>width = 612, height = 792, ops = [Show_pdf_page letter 1]\<rparr>]"
    unfolding truncated_run by simp
  from x o a t p x' o' c' a' t' p' show ?thesis by blast
qed

section \<open>The document handles at the return\<close>

lemma handles_at_return:
  assumes "fs (input_path self) = Some n"
    and "fitz_open lib (input_path self) = Inr doc"
  shows "(fst (compress_pdf lib self fs lg) \<longrightarrow>
            pdf_document (snd (compress_pdf lib self fs lg)) = Closed \<and>
            output_pdf (snd (compress_pdf lib self fs lg)) = Closed) \<and>
         (\<not> fst (compress_pdf lib self fs lg) \<longrightarrow>
            pdf_document (snd (compress_pdf lib self fs lg)) = Opened \<and>
            output_pdf (snd (compress_pdf lib self fs lg)) = Opened)"
proof -
  obtain r s' where run: "compress_pdf lib self fs lg = (r, s')"
    by (cases "compress_pdf lib self fs lg")
  have loop_ok: "pdf_document s4 = Opened \<and> output_pdf s4 = Opened"
    if "for_each [0..<length (pages d)] (process_page lib self d (length (pages d)))
          (opened_state self fs lg) = (q, s4)" for d q s4
    using pages_loop_unchanged_outside [OF that]
    by (simp add: unchanged_outside_def opened_state_fields)
  have save_ok: "(case q of Inl e \<Rightarrow> pdf_document s5 = pdf_document s4 \<and> output_pdf s5 = output_pdf s4
                  | Inr b \<Rightarrow> b \<and> pdf_document s5 = Closed \<and> output_pdf s5 = Closed)"
    if "save_and_report lib self s4 = (q, s5)" for q s4 s5
    using save_and_report_cases [OF that] by auto
  from compress_pdf_cases [OF run] assms
  have "(r \<longrightarrow> pdf_document s' = Closed \<and> output_pdf s' = Closed) \<and>
        (\<not> r \<longrightarrow> pdf_document s' = Opened \<and> output_pdf s' = Opened)"
    by (auto simp: logger_def dest!: loop_ok save_ok)
  with run show ?thesis by simp
qed

text \<open>
  C2 does not hold of the code. The two \<^verbatim>\<open>close\<close> calls are the last statements of
  the \<^verbatim>\<open>try\<close> block and there is no \<^verbatim>\<open>finally\<close>: when the output path cannot be
  written, \<open>compress_pdf\<close> returns \<open>False\<close> with both handles still open. On the same
  document with a writable output path both are closed.
\<close>

theorem handles_left_open_on_failure:
  "fst (compress_pdf (sample_lib photo_rect photo_bytes)
          (init ''in.pdf'' ''/readonly/out.pdf'' (Some 50)) sample_files []) = False \<and>
   pdf_document (snd (compress_pdf (sample_lib photo_rect photo_bytes)
          (init ''in.pdf'' ''/readonly/out.pdf'' (Some 50)) sample_files [])) = Opened \<and>
   output_pdf (snd (compress_pdf (sample_lib photo_rect photo_bytes)
          (init ''in.pdf'' ''/readonly/out.pdf'' (Some 50)) sample_files [])) = Opened \<and>
   logged (snd (compress_pdf (sample_lib photo_rect photo_bytes)
          (init ''in.pdf'' ''/readonly/out.pdf'' (Some 50)) sample_files [])) =
     [Info_starting ''in.pdf'', Info_processing 1 2, Info_processing 2 2,
      Error_pdf (OSError ''/readonly/out.pdf'')] \<and>
   pdf_document (snd (compress_pdf (sample_lib photo_rect photo_bytes) sample_self
          sample_files [])) = Closed \<and>
   output_pdf (snd (compress_pdf (sample_lib photo_rect photo_bytes) sample_self
          sample_files [])) = Closed"
  unfolding readonly_run sample_run by simp

section \<open>The placement rectangle\<close>

lemma process_image_rect:
  assumes "extract_image doc (xref img) = Inr (Some base)"
    and "compress_image lib self (bi_image base) (bi_ext base) s = (Some compressed_bytes, s1)"
    and "get_image_bbox page img = Inr image_rect"
  shows "(\<not> rect_bool lib image_rect \<longrightarrow>
            process_image lib self doc page output_page img s = (Inr (), s1)) \<and>
         (rect_bool lib image_rect \<longrightarrow>
            process_image lib self doc page output_page img s =
              (case insert_image lib image_rect compressed_bytes of
                 Inl e \<Rightarrow> (Inl e, s1)
               | Inr u \<Rightarrow>
                  (Inr (), draw output_page (Insert_image image_rect compressed_bytes) s1)))"
  unfolding process_image_compressed [OF assms(1) assms(2)] assms(3) by simp

text \<open>
  C7 does not hold of the code. The insertion is guarded by the truth value of the
  rectangle, and a PyMuPDF rectangle is false only when all its coordinates are zero.
  The rectangle from (10, 10) to (10, 20) has no area and is true: it is handed to
  \<^verbatim>\<open>insert_image\<close>, which refuses an empty rectangle, and the exception ends the
  whole run: \<open>compress_pdf\<close> returns \<open>False\<close> and nothing is saved.
\<close>

theorem zero_area_rect_not_skipped:
  "zero_area \<lparr>x0 = 10, y0 = 10, x1 = 10, y1 = 20\<rparr> \<and>
   get_image_bbox (photo_page \<lparr>x0 = 10, y0 = 10, x1 = 10, y1 = 20\<rparr>) photo_item =
     Inr \<lparr>x0 = 10, y0 = 10, x1 = 10, y1 = 20\<rparr> \<and>
   rect_bool (sample_lib \<lparr>x0 = 10, y0 = 10, x1 = 10, y1 = 20\<rparr> photo_bytes)
     \<lparr>x0 = 10, y0 = 10, x1 = 10, y1 = 20\<rparr> \<and>
   fst (compress_pdf (sample_lib \<lparr>x0 = 10, y0 = 10, x1 = 10, y1 = 20\<rparr> photo_bytes) sample_self
          sample_files []) = False \<and>
   logged (snd (compress_pdf (sample_lib \<lparr>x0 = 10, y0 = 10, x1 = 10, y1 = 20\<rparr> photo_bytes)
          sample_self sample_files [])) =
     [Info_starting ''in.pdf'', Info_processing 1 2,
      Error_pdf (LibraryError ''rect must be finite and not empty'')] \<and>
   persisted (snd (compress_pdf (sample_lib \<lparr>x0 = 10, y0 = 10, x1 = 10, y1 = 20\<rparr> photo_bytes)
          sample_self sample_files [])) = None"
  unfolding zero_area_run
  by (simp add: zero_area_def photo_page_def sample_lib_def fitz_rect_bool_def)

end
